theory Spec2Isabelle
  imports Main
begin

section \<open>Data model\<close>

text \<open>
  A status is whatever the remote service puts in the \<^verbatim>\<open>status\<close> field: a string
  literal such as \<^verbatim>\<open>'active'\<close>, or a number such as \<^verbatim>\<open>404\<close> (the tests
  pass both \<^verbatim>\<open>'404'\<close> and \<^verbatim>\<open>404\<close>). The comparison \<^verbatim>\<open>!==\<close> is strict, so
  the string and the number are different values. A missing field
  (\<^verbatim>\<open>undefined\<close>) is \<open>None\<close>.

  Seconds are \<open>int\<close>: the JavaScript numbers of the source are doubles, and on
  integral values below \<open>2 ^ 53\<close> their addition and comparison are exact.
\<close>

datatype status = Str string | Num int

record subscription =
  sub_id :: int
  sub_status :: "status option"

record vpcPeering =
  vpc_id :: int
  vpc_status :: "status option"

record database =
  db_databaseId :: int
  db_status :: "status option"

record cloudAccount =
  ca_id :: int
  ca_status :: "status option"

record task =
  task_taskId :: int
  task_status :: "status option"

text \<open>
  What a rejected promise carries: the \<^verbatim>\<open>Error\<close> type of \<^verbatim>\<open>api.ts\<close>, the
  envelope of a rejected request, or the \<^verbatim>\<open>ReferenceError\<close> of the language,
  with the name that is not defined.
\<close>

datatype error =
    Error (response_status: int) (response_statusText: string)
  | ReferenceError string

section \<open>The remote service and the call log\<close>

text \<open>
  The accessors (\<^verbatim>\<open>./api/subscription\<close>, \<^verbatim>\<open>./api/database\<close>,
  \<^verbatim>\<open>./api/cloud-account\<close>, \<^verbatim>\<open>./api/task\<close>) and \<^verbatim>\<open>sleep\<close> of the base
  client are parameters of the model. The state of the world is the log of the
  calls issued so far, oldest first; what an accessor answers is a function of
  that log (the call being answered is its last entry), which covers every
  deterministic remote service. A rejected promise is \<open>Inl\<close>.
\<close>

datatype call =
    GetSubscription int
  | GetVpcPeerings int
  | GetDatabase int int
  | GetDatabases int
  | GetCloudAccount int
  | GetTask int
  | Sleep int

record service =
  svc_getSubscription :: "call list \<Rightarrow> error + subscription"
  svc_getVpcPeerings :: "call list \<Rightarrow> error + vpcPeering list"
  svc_getDatabase :: "call list \<Rightarrow> error + database"
  svc_getDatabases :: "call list \<Rightarrow> error + database list"
  svc_getCloudAccount :: "call list \<Rightarrow> error + cloudAccount"
  svc_getTask :: "call list \<Rightarrow> error + task"

definition getSubscription ::
  "service \<Rightarrow> int \<Rightarrow> call list \<Rightarrow> (error + subscription) \<times> call list" where
  "getSubscription svc subscriptionId tr =
     (let tr' = tr @ [GetSubscription subscriptionId] in (svc_getSubscription svc tr', tr'))"

definition getVpcPeerings ::
  "service \<Rightarrow> int \<Rightarrow> call list \<Rightarrow> (error + vpcPeering list) \<times> call list" where
  "getVpcPeerings svc subscriptionId tr =
     (let tr' = tr @ [GetVpcPeerings subscriptionId] in (svc_getVpcPeerings svc tr', tr'))"

definition getDatabase ::
  "service \<Rightarrow> int \<Rightarrow> int \<Rightarrow> call list \<Rightarrow> (error + database) \<times> call list" where
  "getDatabase svc subscriptionId databaseId tr =
     (let tr' = tr @ [GetDatabase subscriptionId databaseId] in (svc_getDatabase svc tr', tr'))"

definition getDatabases ::
  "service \<Rightarrow> int \<Rightarrow> call list \<Rightarrow> (error + database list) \<times> call list" where
  "getDatabases svc subscriptionId tr =
     (let tr' = tr @ [GetDatabases subscriptionId] in (svc_getDatabases svc tr', tr'))"

definition getCloudAccount ::
  "service \<Rightarrow> int \<Rightarrow> call list \<Rightarrow> (error + cloudAccount) \<times> call list" where
  "getCloudAccount svc cloudAccountId tr =
     (let tr' = tr @ [GetCloudAccount cloudAccountId] in (svc_getCloudAccount svc tr', tr'))"

definition getTask ::
  "service \<Rightarrow> int \<Rightarrow> call list \<Rightarrow> (error + task) \<times> call list" where
  "getTask svc taskId tr =
     (let tr' = tr @ [GetTask taskId] in (svc_getTask svc tr', tr'))"

definition sleep :: "int \<Rightarrow> call list \<Rightarrow> call list" where
  "sleep seconds tr = tr @ [Sleep seconds]"

section \<open>The wait helpers\<close>

text \<open>
  Each \<^verbatim>\<open>while\<close> loop is a recursive function on the loop variables and the call
  log; a loop that never exits has the value \<open>None\<close>. The helper itself takes the
  two optional arguments as options and fills in the defaults of its signature.
  \<^verbatim>\<open>this.log\<close> only prints; of a debug message only the evaluation of its
  arguments can matter, and it does in \<^verbatim>\<open>waitForVpcPeeringStatus\<close>.
\<close>

subsection \<open>\<^verbatim>\<open>waitForSubscriptionStatus\<close>\<close>

partial_function (option) waitSubscriptionLoop ::
  "service \<Rightarrow> int \<Rightarrow> status \<Rightarrow> int \<Rightarrow> int \<Rightarrow> subscription \<Rightarrow> int \<Rightarrow> call list
     \<Rightarrow> ((error + subscription) \<times> call list) option" where
  "waitSubscriptionLoop svc subscriptionId expectedStatus timeoutInSeconds sleepTimeInSeconds
       subscription timePassedInSeconds tr =
     (if sub_status subscription \<noteq> Some expectedStatus
         \<and> sub_status subscription \<noteq> Some (Str ''error'')
         \<and> sub_status subscription \<noteq> None
         \<and> timePassedInSeconds \<le> timeoutInSeconds
      then
        (case getSubscription svc subscriptionId (sleep sleepTimeInSeconds tr) of
           (Inl e, tr') \<Rightarrow> Some (Inl e, tr')
         | (Inr subscription', tr') \<Rightarrow>
             waitSubscriptionLoop svc subscriptionId expectedStatus timeoutInSeconds
               sleepTimeInSeconds subscription' (timePassedInSeconds + sleepTimeInSeconds) tr')
      else Some (Inr subscription, tr))"

declare waitSubscriptionLoop.simps [code]

definition waitForSubscriptionStatus ::
  "service \<Rightarrow> int \<Rightarrow> status \<Rightarrow> int option \<Rightarrow> int option \<Rightarrow> call list
     \<Rightarrow> ((error + subscription) \<times> call list) option" where
  "waitForSubscriptionStatus svc subscriptionId expectedStatus timeoutArg sleepTimeArg tr =
     (let timeoutInSeconds = (case timeoutArg of None \<Rightarrow> 20 * 60 | Some t \<Rightarrow> t);
          sleepTimeInSeconds = (case sleepTimeArg of None \<Rightarrow> 5 | Some s \<Rightarrow> s)
      in case getSubscription svc subscriptionId tr of
           (Inl e, tr') \<Rightarrow> Some (Inl e, tr')
         | (Inr subscription, tr') \<Rightarrow>
             waitSubscriptionLoop svc subscriptionId expectedStatus timeoutInSeconds
               sleepTimeInSeconds subscription 0 tr')"

subsection \<open>\<^verbatim>\<open>waitForVpcPeeringStatus\<close>\<close>

text \<open>
  The loop variables are \<^verbatim>\<open>vpcPeering\<close> (the result of the last \<^verbatim>\<open>find\<close>,
  \<open>None\<close> when no entry has the id) and \<^verbatim>\<open>status\<close>, which is assigned only
  when the entry was found.
\<close>

partial_function (option) waitVpcPeeringLoop ::
  "service \<Rightarrow> int \<Rightarrow> int \<Rightarrow> status \<Rightarrow> int \<Rightarrow> int \<Rightarrow> vpcPeering option \<Rightarrow> status option
     \<Rightarrow> int \<Rightarrow> call list \<Rightarrow> ((error + vpcPeering option) \<times> call list) option" where
  "waitVpcPeeringLoop svc subscriptionId vpcPeeringId expectedStatus timeoutInSeconds
       sleepTimeInSeconds vpcPeering status timePassedInSeconds tr =
     (if status \<noteq> Some expectedStatus
         \<and> status \<noteq> Some (Str ''failed'')
         \<and> status \<noteq> None
         \<and> timePassedInSeconds \<le> timeoutInSeconds
      then
        (case getVpcPeerings svc subscriptionId (sleep sleepTimeInSeconds tr) of
           (Inl e, tr') \<Rightarrow> Some (Inl e, tr')
         | (Inr vpcPeerings, tr') \<Rightarrow>
             (let vpcPeering' = find (\<lambda>vpcPeering. vpc_id vpcPeering = vpcPeeringId) vpcPeerings;
                  status' = (case vpcPeering' of None \<Rightarrow> status | Some p \<Rightarrow> vpc_status p)
              in waitVpcPeeringLoop svc subscriptionId vpcPeeringId expectedStatus
                   timeoutInSeconds sleepTimeInSeconds vpcPeering' status'
                   (timePassedInSeconds + sleepTimeInSeconds) tr'))
      else Some (Inr vpcPeering, tr))"

declare waitVpcPeeringLoop.simps [code]

text \<open>
  Lines 343 to 356 of \<^verbatim>\<open>waitForVpcPeeringStatus\<close>: the first fetch, the lookup
  and, when the entry was found, the loop. The result is the value of
  \<^verbatim>\<open>vpcPeering\<close> when the \<^verbatim>\<open>if\<close> statement has ended.
\<close>

definition vpcPeeringPolled ::
  "service \<Rightarrow> int \<Rightarrow> int \<Rightarrow> status \<Rightarrow> int option \<Rightarrow> int option \<Rightarrow> call list
     \<Rightarrow> ((error + vpcPeering option) \<times> call list) option" where
  "vpcPeeringPolled svc subscriptionId vpcPeeringId expectedStatus timeoutArg
       sleepTimeArg tr =
     (let timeoutInSeconds = (case timeoutArg of None \<Rightarrow> 5 * 60 | Some t \<Rightarrow> t);
          sleepTimeInSeconds = (case sleepTimeArg of None \<Rightarrow> 5 | Some s \<Rightarrow> s)
      in case getVpcPeerings svc subscriptionId tr of
           (Inl e, tr') \<Rightarrow> Some (Inl e, tr')
         | (Inr vpcPeerings, tr') \<Rightarrow>
             (case find (\<lambda>vpcPeering. vpc_id vpcPeering = vpcPeeringId) vpcPeerings of
                None \<Rightarrow> Some (Inr None, tr')
              | Some p \<Rightarrow>
                  waitVpcPeeringLoop svc subscriptionId vpcPeeringId expectedStatus
                    timeoutInSeconds sleepTimeInSeconds (Some p) (vpc_status p) 0 tr'))"

text \<open>
  Line 357 builds the debug message from \<^verbatim>\<open>status\<close>. The \<^verbatim>\<open>let\<close> of line 347
  is local to the block of the \<^verbatim>\<open>if\<close> statement, so at line 357 the name is
  free, and the global scope of Node, on which the SDK runs, has no \<^verbatim>\<open>status\<close>:
  evaluating the template literal throws a \<^verbatim>\<open>ReferenceError\<close>, before
  \<^verbatim>\<open>this.log\<close> is called and before \<^verbatim>\<open>return vpcPeering\<close> is reached.
\<close>

definition freeStatus :: "error + status option" where
  "freeStatus = Inl (ReferenceError ''status'')"

definition waitForVpcPeeringStatus ::
  "service \<Rightarrow> int \<Rightarrow> int \<Rightarrow> status \<Rightarrow> int option \<Rightarrow> int option \<Rightarrow> call list
     \<Rightarrow> ((error + vpcPeering option) \<times> call list) option" where
  "waitForVpcPeeringStatus svc subscriptionId vpcPeeringId expectedStatus timeoutArg
       sleepTimeArg tr =
     (case vpcPeeringPolled svc subscriptionId vpcPeeringId expectedStatus timeoutArg
             sleepTimeArg tr of
        None \<Rightarrow> None
      | Some (Inl e, tr') \<Rightarrow> Some (Inl e, tr')
      | Some (Inr vpcPeering, tr') \<Rightarrow>
          (case freeStatus of
             Inl e \<Rightarrow> Some (Inl e, tr')
           | Inr status \<Rightarrow> Some (Inr vpcPeering, tr')))"

subsection \<open>\<^verbatim>\<open>waitForDatabaseStatus\<close> and \<^verbatim>\<open>waitForSubscriptionDatabasesStatus\<close>\<close>

partial_function (option) waitDatabaseLoop ::
  "service \<Rightarrow> int \<Rightarrow> int \<Rightarrow> status \<Rightarrow> int \<Rightarrow> int \<Rightarrow> database \<Rightarrow> int \<Rightarrow> call list
     \<Rightarrow> ((error + database) \<times> call list) option" where
  "waitDatabaseLoop svc subscriptionId databaseId expectedStatus timeoutInSeconds
       sleepTimeInSeconds database timePassedInSeconds tr =
     (if db_status database \<noteq> Some expectedStatus
         \<and> db_status database \<noteq> Some (Str ''error'')
         \<and> db_status database \<noteq> None
         \<and> timePassedInSeconds \<le> timeoutInSeconds
      then
        (case getDatabase svc subscriptionId databaseId (sleep sleepTimeInSeconds tr) of
           (Inl e, tr') \<Rightarrow> Some (Inl e, tr')
         | (Inr database', tr') \<Rightarrow>
             waitDatabaseLoop svc subscriptionId databaseId expectedStatus timeoutInSeconds
               sleepTimeInSeconds database' (timePassedInSeconds + sleepTimeInSeconds) tr')
      else Some (Inr database, tr))"

declare waitDatabaseLoop.simps [code]

definition waitForDatabaseStatus ::
  "service \<Rightarrow> int \<Rightarrow> int \<Rightarrow> status \<Rightarrow> int option \<Rightarrow> int option \<Rightarrow> call list
     \<Rightarrow> ((error + database) \<times> call list) option" where
  "waitForDatabaseStatus svc subscriptionId databaseId expectedStatus timeoutArg sleepTimeArg tr =
     (let timeoutInSeconds = (case timeoutArg of None \<Rightarrow> 5 * 60 | Some t \<Rightarrow> t);
          sleepTimeInSeconds = (case sleepTimeArg of None \<Rightarrow> 5 | Some s \<Rightarrow> s)
      in case getDatabase svc subscriptionId databaseId tr of
           (Inl e, tr') \<Rightarrow> Some (Inl e, tr')
         | (Inr database, tr') \<Rightarrow>
             waitDatabaseLoop svc subscriptionId databaseId expectedStatus timeoutInSeconds
               sleepTimeInSeconds database 0 tr')"

text \<open>The \<^verbatim>\<open>for ... of\<close> loop over the list of databases; a rejected wait ends it.\<close>

fun waitForEachDatabase ::
  "service \<Rightarrow> int \<Rightarrow> database list \<Rightarrow> status \<Rightarrow> int \<Rightarrow> int \<Rightarrow> call list
     \<Rightarrow> ((error + unit) \<times> call list) option" where
  "waitForEachDatabase svc subscriptionId [] expectedStatus timeoutInSeconds
       sleepTimeInSeconds tr = Some (Inr (), tr)"
| "waitForEachDatabase svc subscriptionId (database # databases) expectedStatus
       timeoutInSeconds sleepTimeInSeconds tr =
     (case waitForDatabaseStatus svc subscriptionId (db_databaseId database) expectedStatus
             (Some timeoutInSeconds) (Some sleepTimeInSeconds) tr of
        None \<Rightarrow> None
      | Some (Inl e, tr') \<Rightarrow> Some (Inl e, tr')
      | Some (Inr _, tr') \<Rightarrow>
          waitForEachDatabase svc subscriptionId databases expectedStatus timeoutInSeconds
            sleepTimeInSeconds tr')"

definition waitForSubscriptionDatabasesStatus ::
  "service \<Rightarrow> int \<Rightarrow> status option \<Rightarrow> int option \<Rightarrow> int option \<Rightarrow> call list
     \<Rightarrow> ((error + unit) \<times> call list) option" where
  "waitForSubscriptionDatabasesStatus svc subscriptionId expectedStatusArg timeoutArg
       sleepTimeArg tr =
     (let expectedStatus = (case expectedStatusArg of None \<Rightarrow> Str ''active'' | Some e \<Rightarrow> e);
          timeoutInSeconds = (case timeoutArg of None \<Rightarrow> 5 * 60 | Some t \<Rightarrow> t);
          sleepTimeInSeconds = (case sleepTimeArg of None \<Rightarrow> 5 | Some s \<Rightarrow> s)
      in case getDatabases svc subscriptionId tr of
           (Inl e, tr') \<Rightarrow> Some (Inl e, tr')
         | (Inr databases, tr') \<Rightarrow>
             waitForEachDatabase svc subscriptionId databases expectedStatus timeoutInSeconds
               sleepTimeInSeconds tr')"

subsection \<open>\<^verbatim>\<open>waitForCloudAccountStatus\<close>\<close>

partial_function (option) waitCloudAccountLoop ::
  "service \<Rightarrow> int \<Rightarrow> status \<Rightarrow> int \<Rightarrow> int \<Rightarrow> cloudAccount \<Rightarrow> int \<Rightarrow> call list
     \<Rightarrow> ((error + cloudAccount) \<times> call list) option" where
  "waitCloudAccountLoop svc cloudAccountId expectedStatus timeoutInSeconds sleepTimeInSeconds
       cloudAccount timePassedInSeconds tr =
     (if ca_status cloudAccount \<noteq> Some expectedStatus
         \<and> ca_status cloudAccount \<noteq> Some (Str ''error'')
         \<and> ca_status cloudAccount \<noteq> None
         \<and> timePassedInSeconds \<le> timeoutInSeconds
      then
        (case getCloudAccount svc cloudAccountId (sleep sleepTimeInSeconds tr) of
           (Inl e, tr') \<Rightarrow> Some (Inl e, tr')
         | (Inr cloudAccount', tr') \<Rightarrow>
             waitCloudAccountLoop svc cloudAccountId expectedStatus timeoutInSeconds
               sleepTimeInSeconds cloudAccount' (timePassedInSeconds + sleepTimeInSeconds) tr')
      else Some (Inr cloudAccount, tr))"

declare waitCloudAccountLoop.simps [code]

definition waitForCloudAccountStatus ::
  "service \<Rightarrow> int \<Rightarrow> status \<Rightarrow> int option \<Rightarrow> int option \<Rightarrow> call list
     \<Rightarrow> ((error + cloudAccount) \<times> call list) option" where
  "waitForCloudAccountStatus svc cloudAccountId expectedStatus timeoutArg sleepTimeArg tr =
     (let timeoutInSeconds = (case timeoutArg of None \<Rightarrow> 5 * 60 | Some t \<Rightarrow> t);
          sleepTimeInSeconds = (case sleepTimeArg of None \<Rightarrow> 5 | Some s \<Rightarrow> s)
      in case getCloudAccount svc cloudAccountId tr of
           (Inl e, tr') \<Rightarrow> Some (Inl e, tr')
         | (Inr cloudAccount, tr') \<Rightarrow>
             waitCloudAccountLoop svc cloudAccountId expectedStatus timeoutInSeconds
               sleepTimeInSeconds cloudAccount 0 tr')"

subsection \<open>\<^verbatim>\<open>waitForTaskStatus\<close>\<close>

text \<open>
  Modelled from the spec: \<^verbatim>\<open>waitForTaskStatus\<close> of the task accessor
  (\<^verbatim>\<open>./api/task\<close>), to which the facade forwards, is not among the sources. The
  loop below follows the polling contract of the specification (fetch once; while
  the status is not the expected one, not the sentinel \<^verbatim>\<open>error\<close>, defined,
  and the elapsed time is at most the timeout: sleep, advance the elapsed time,
  fetch again; return the last fetched task).
\<close>

partial_function (option) taskWaitLoop ::
  "service \<Rightarrow> int \<Rightarrow> status \<Rightarrow> int \<Rightarrow> int \<Rightarrow> task \<Rightarrow> int \<Rightarrow> call list
     \<Rightarrow> ((error + task) \<times> call list) option" where
  "taskWaitLoop svc taskId expectedStatus timeoutInSeconds sleepTimeInSeconds
       task timePassedInSeconds tr =
     (if task_status task \<noteq> Some expectedStatus
         \<and> task_status task \<noteq> Some (Str ''error'')
         \<and> task_status task \<noteq> None
         \<and> timePassedInSeconds \<le> timeoutInSeconds
      then
        (case getTask svc taskId (sleep sleepTimeInSeconds tr) of
           (Inl e, tr') \<Rightarrow> Some (Inl e, tr')
         | (Inr task', tr') \<Rightarrow>
             taskWaitLoop svc taskId expectedStatus timeoutInSeconds
               sleepTimeInSeconds task' (timePassedInSeconds + sleepTimeInSeconds) tr')
      else Some (Inr task, tr))"

declare taskWaitLoop.simps [code]

text \<open>
  Modelled from the spec: the entry point of the accessor's wait, with the first
  fetch at elapsed time 0.
\<close>

definition task_waitForTaskStatus ::
  "service \<Rightarrow> int \<Rightarrow> status \<Rightarrow> int \<Rightarrow> int \<Rightarrow> call list
     \<Rightarrow> ((error + task) \<times> call list) option" where
  "task_waitForTaskStatus svc taskId expectedStatus timeoutInSeconds sleepTimeInSeconds tr =
     (case getTask svc taskId tr of
        (Inl e, tr') \<Rightarrow> Some (Inl e, tr')
      | (Inr task, tr') \<Rightarrow>
          taskWaitLoop svc taskId expectedStatus timeoutInSeconds sleepTimeInSeconds task 0 tr')"

text \<open>The facade method of \<^verbatim>\<open>api.ts\<close>: defaults, then the accessor.\<close>

definition waitForTaskStatus ::
  "service \<Rightarrow> int \<Rightarrow> status \<Rightarrow> int option \<Rightarrow> int option \<Rightarrow> call list
     \<Rightarrow> ((error + task) \<times> call list) option" where
  "waitForTaskStatus svc taskId expectedStatus timeoutArg sleepTimeArg tr =
     (let timeoutInSeconds = (case timeoutArg of None \<Rightarrow> 20 * 60 | Some t \<Rightarrow> t);
          sleepTimeInSeconds = (case sleepTimeArg of None \<Rightarrow> 5 | Some s \<Rightarrow> s)
      in task_waitForTaskStatus svc taskId expectedStatus timeoutInSeconds sleepTimeInSeconds tr)"

section \<open>Reading a call log\<close>

text \<open>
  \<open>rounds g s n\<close> is the log of \<open>n\<close> iterations of a loop that sleeps \<open>s\<close> seconds
  and then issues the call \<open>g\<close>; \<open>pollCalls g s n\<close> is the log of a whole wait that
  fetched \<open>n + 1\<close> times.
\<close>

definition rounds :: "call \<Rightarrow> int \<Rightarrow> nat \<Rightarrow> call list" where
  "rounds g s n = concat (replicate n [Sleep s, g])"

definition pollCalls :: "call \<Rightarrow> int \<Rightarrow> nat \<Rightarrow> call list" where
  "pollCalls g s n = g # rounds g s n"

fun isFetch :: "call \<Rightarrow> bool" where
  "isFetch (Sleep s) = False"
| "isFetch c = True"

definition fetches :: "call list \<Rightarrow> nat" where
  "fetches tr = length (filter isFetch tr)"

fun sleepSeconds :: "call \<Rightarrow> int" where
  "sleepSeconds (Sleep s) = s"
| "sleepSeconds c = 0"

definition sleeps :: "call list \<Rightarrow> nat" where
  "sleeps tr = length (filter (\<lambda>c. \<not> isFetch c) tr)"

definition elapsed :: "call list \<Rightarrow> int" where
  "elapsed tr = sum_list (map sleepSeconds tr)"

section \<open>The shape shared by the loops\<close>

text \<open>
  All five loops have one shape: a guard on the loop state and on the elapsed
  time, and a body that sleeps, issues one call and computes the next state from
  the answer. \<open>pollStep\<close> is that body with the recursive call abstracted;
  \<open>stateAfter\<close> is the loop state after \<open>n\<close> iterations, \<open>continues\<close> the guard
  on it. They are used to state what a loop does without unfolding it.
\<close>

definition statusPending :: "status \<Rightarrow> string \<Rightarrow> status option \<Rightarrow> bool" where
  "statusPending expectedStatus sentinel st =
     (st \<noteq> Some expectedStatus \<and> st \<noteq> Some (Str sentinel) \<and> st \<noteq> None)"

definition continues :: "('r \<Rightarrow> bool) \<Rightarrow> int \<Rightarrow> int \<Rightarrow> error + 'r \<Rightarrow> bool" where
  "continues go timeout t r = (case r of Inl e \<Rightarrow> False | Inr s \<Rightarrow> go s \<and> t \<le> timeout)"

definition pollStep ::
  "('r \<Rightarrow> bool) \<Rightarrow> ('r \<Rightarrow> call list \<Rightarrow> error + 'r) \<Rightarrow> ('r \<Rightarrow> 'o) \<Rightarrow> call \<Rightarrow> int \<Rightarrow> int
    \<Rightarrow> ('r \<Rightarrow> int \<Rightarrow> call list \<Rightarrow> ((error + 'o) \<times> call list) option)
    \<Rightarrow> 'r \<Rightarrow> int \<Rightarrow> call list \<Rightarrow> ((error + 'o) \<times> call list) option" where
  "pollStep go nxt out g timeout sl f s t h =
      (if go s \<and> t \<le> timeout
       then (case nxt s (h @ [Sleep sl, g]) of
               Inl e \<Rightarrow> Some (Inl e, h @ [Sleep sl, g])
             | Inr s' \<Rightarrow> f s' (t + sl) (h @ [Sleep sl, g]))
       else Some (Inr (out s), h))"

fun stateAfter ::
  "('r \<Rightarrow> call list \<Rightarrow> error + 'r) \<Rightarrow> call \<Rightarrow> int \<Rightarrow> 'r \<Rightarrow> call list \<Rightarrow> nat \<Rightarrow> error + 'r" where
  "stateAfter nxt g sl s h 0 = Inr s"
| "stateAfter nxt g sl s h (Suc n) =
     (case stateAfter nxt g sl s h n of
        Inl e \<Rightarrow> Inl e
      | Inr s' \<Rightarrow> nxt s' (h @ rounds g sl (Suc n)))"

definition outcome :: "('r \<Rightarrow> 'o) \<Rightarrow> error + 'r \<Rightarrow> error + 'o" where
  "outcome out r = (case r of Inl e \<Rightarrow> Inl e | Inr s \<Rightarrow> Inr (out s))"

text \<open>
  \<open>inducts F loop\<close>: \<open>loop\<close> is the least function closed under the body \<open>F\<close>, in
  the form of its induction principle (what it returns it returns after finitely
  many unfoldings).
\<close>

definition inducts ::
  "(('r \<Rightarrow> int \<Rightarrow> call list \<Rightarrow> 'y option) \<Rightarrow> 'r \<Rightarrow> int \<Rightarrow> call list \<Rightarrow> 'y option)
     \<Rightarrow> ('r \<Rightarrow> int \<Rightarrow> call list \<Rightarrow> 'y option) \<Rightarrow> bool" where
  "inducts F loop =
     (\<forall>P. (\<forall>f. (\<forall>s t h y. f s t h = Some y \<longrightarrow> P s t h y)
                \<longrightarrow> (\<forall>s t h y. F f s t h = Some y \<longrightarrow> P s t h y))
          \<longrightarrow> (\<forall>s t h y. loop s t h = Some y \<longrightarrow> P s t h y))"

text \<open>The number of iterations after which the elapsed time \<open>t\<close> has passed the timeout.\<close>

definition budget :: "int \<Rightarrow> int \<Rightarrow> int \<Rightarrow> nat" where
  "budget timeout sl t = (if t \<le> timeout then nat ((timeout - t) div sl) + 1 else 0)"

text \<open>
  The state of the VPC-peering loop is the pair of \<^verbatim>\<open>vpcPeering\<close> and
  \<^verbatim>\<open>status\<close>; \<open>vpcNext\<close> is the effect of one answer on it, \<open>vpcLookup\<close> the
  \<^verbatim>\<open>find\<close> on an answer.
\<close>

definition vpcLookup :: "int \<Rightarrow> error + vpcPeering list \<Rightarrow> error + vpcPeering option" where
  "vpcLookup vpcPeeringId r =
     (case r of
        Inl e \<Rightarrow> Inl e
      | Inr vpcPeerings \<Rightarrow> Inr (find (\<lambda>vpcPeering. vpc_id vpcPeering = vpcPeeringId) vpcPeerings))"

definition vpcNext ::
  "service \<Rightarrow> int \<Rightarrow> vpcPeering option \<times> status option \<Rightarrow> call list
     \<Rightarrow> error + vpcPeering option \<times> status option" where
  "vpcNext svc vpcPeeringId s h =
     (case vpcLookup vpcPeeringId (svc_getVpcPeerings svc h) of
        Inl e \<Rightarrow> Inl e
      | Inr None \<Rightarrow> Inr (None, snd s)
      | Inr (Some p) \<Rightarrow> Inr (Some p, vpc_status p))"

text \<open>
  What an answer has to be for the loop to go on, as far as the status goes:
  \<open>pendingAnswer\<close> for the four helpers with the sentinel \<^verbatim>\<open>error\<close>,
  \<open>vpcFoundPending\<close> for the VPC peering, whose entry must also be in the list.
\<close>

definition pendingAnswer :: "status \<Rightarrow> ('r \<Rightarrow> status option) \<Rightarrow> error + 'r \<Rightarrow> bool" where
  "pendingAnswer expectedStatus statusOf r =
     (case r of Inl e \<Rightarrow> False | Inr s \<Rightarrow> statusPending expectedStatus ''error'' (statusOf s))"

definition vpcFoundPending :: "status \<Rightarrow> int \<Rightarrow> error + vpcPeering list \<Rightarrow> bool" where
  "vpcFoundPending expectedStatus vpcPeeringId r =
     (case vpcLookup vpcPeeringId r of
        Inl e \<Rightarrow> False
      | Inr None \<Rightarrow> False
      | Inr (Some p) \<Rightarrow> statusPending expectedStatus ''failed'' (vpc_status p))"

section \<open>Remote services used as examples\<close>

text \<open>
  \<open>scriptedService script\<close> answers the \<open>k\<close>-th fetch with the \<open>k\<close>-th status of
  the (non-empty) script, and repeats the last status after that. Every resource
  has id \<open>1\<close>; the list of VPC peerings also holds a peering with id \<open>7\<close>.
\<close>

definition scriptedStatus :: "status option list \<Rightarrow> call list \<Rightarrow> status option" where
  "scriptedStatus script h = script ! min (fetches h - 1) (length script - 1)"

definition scriptedService :: "status option list \<Rightarrow> service" where
  "scriptedService script =
     \<lparr> svc_getSubscription = (\<lambda>h. Inr \<lparr> sub_id = 1, sub_status = scriptedStatus script h \<rparr>),
       svc_getVpcPeerings = (\<lambda>h. Inr [\<lparr> vpc_id = 7, vpc_status = Some (Str ''active'') \<rparr>,
                                      \<lparr> vpc_id = 1, vpc_status = scriptedStatus script h \<rparr>]),
       svc_getDatabase = (\<lambda>h. Inr \<lparr> db_databaseId = 1, db_status = scriptedStatus script h \<rparr>),
       svc_getDatabases = (\<lambda>h. Inr [\<lparr> db_databaseId = 1, db_status = scriptedStatus script h \<rparr>]),
       svc_getCloudAccount = (\<lambda>h. Inr \<lparr> ca_id = 1, ca_status = scriptedStatus script h \<rparr>),
       svc_getTask = (\<lambda>h. Inr \<lparr> task_taskId = 1, task_status = scriptedStatus script h \<rparr>) \<rparr>"

definition creating :: "status option" where
  "creating = Some (Str ''creating'')"

definition active :: "status option" where
  "active = Some (Str ''active'')"

definition pending :: "status option" where
  "pending = Some (Str ''initiating-request'')"

definition failing :: "status option" where
  "failing = Some (Str ''error'')"

definition failed :: "status option" where
  "failed = Some (Str ''failed'')"

text \<open>
  \<open>vpcScriptedService script\<close> answers the \<open>k\<close>-th \<^verbatim>\<open>getVpcPeerings\<close> with the
  \<open>k\<close>-th list of the script and repeats the last list after that.
\<close>

definition vpcScriptedService :: "vpcPeering list list \<Rightarrow> service" where
  "vpcScriptedService script =
     \<lparr> svc_getSubscription = (\<lambda>h. Inl (Error 404 ''Not Found'')),
       svc_getVpcPeerings = (\<lambda>h. Inr (script ! min (fetches h - 1) (length script - 1))),
       svc_getDatabase = (\<lambda>h. Inl (Error 404 ''Not Found'')),
       svc_getDatabases = (\<lambda>h. Inl (Error 404 ''Not Found'')),
       svc_getCloudAccount = (\<lambda>h. Inl (Error 404 ''Not Found'')),
       svc_getTask = (\<lambda>h. Inl (Error 404 ''Not Found'')) \<rparr>"

definition peering :: "status option \<Rightarrow> vpcPeering" where
  "peering st = \<lparr> vpc_id = 1, vpc_status = st \<rparr>"

text \<open>
  \<open>twoDatabasesService\<close> lists the databases 10 and 20 under every subscription;
  a database is \<^verbatim>\<open>creating\<close> at its first fetch and \<^verbatim>\<open>active\<close> from its second.
\<close>

definition twoDatabasesService :: service where
  "twoDatabasesService =
     \<lparr> svc_getSubscription = (\<lambda>h. Inl (Error 404 ''Not Found'')),
       svc_getVpcPeerings = (\<lambda>h. Inl (Error 404 ''Not Found'')),
       svc_getDatabase = (\<lambda>h. case rev h of
            GetDatabase s d # earlier \<Rightarrow>
              Inr \<lparr> db_databaseId = d,
                    db_status = (if 2 \<le> count_list h (GetDatabase s d) then active else creating) \<rparr>
          | _ \<Rightarrow> Inl (Error 400 ''Bad Request'')),
       svc_getDatabases = (\<lambda>h. Inr [\<lparr> db_databaseId = 10, db_status = creating \<rparr>,
                                    \<lparr> db_databaseId = 20, db_status = creating \<rparr>]),
       svc_getCloudAccount = (\<lambda>h. Inl (Error 404 ''Not Found'')),
       svc_getTask = (\<lambda>h. Inl (Error 404 ''Not Found'')) \<rparr>"

section \<open>What a polling loop does\<close>

subsection \<open>Any loop of the shared shape\<close>

text \<open>
  From the unfolding equation of a loop: if the guard holds on the first \<open>n\<close>
  states and fails on the next, the loop returns that state after \<open>n\<close>
  iterations (\<open>poll_run\<close>); with a positive interval this happens within the
  budget (\<open>poll_terminates\<close>). From its induction principle: it returns in no
  other way (\<open>poll_returns\<close>).
\<close>

lemma rounds_0 [simp]: "rounds g sl 0 = []"
  by (simp add: rounds_def)

lemma rounds_Suc: "rounds g sl (Suc n) = Sleep sl # g # rounds g sl n"
  by (simp add: rounds_def)

lemma stateAfter_shift:
  assumes "nxt s (h @ [Sleep sl, g]) = Inr s'"
  shows "stateAfter nxt g sl s h (Suc j) = stateAfter nxt g sl s' (h @ [Sleep sl, g]) j"
proof (induction j)
  case 0
  from assms show ?case by (simp add: rounds_Suc)
next
  case (Suc j)
  have "stateAfter nxt g sl s h (Suc (Suc j)) =
        (case stateAfter nxt g sl s h (Suc j) of
           Inl e \<Rightarrow> Inl e | Inr s'' \<Rightarrow> nxt s'' (h @ rounds g sl (Suc (Suc j))))"
    by (rule stateAfter.simps(2))
  also have "\<dots> = (case stateAfter nxt g sl s' (h @ [Sleep sl, g]) j of
           Inl e \<Rightarrow> Inl e | Inr s'' \<Rightarrow> nxt s'' ((h @ [Sleep sl, g]) @ rounds g sl (Suc j)))"
    unfolding Suc.IH by (simp add: rounds_Suc cong: sum.case_cong)
  also have "\<dots> = stateAfter nxt g sl s' (h @ [Sleep sl, g]) (Suc j)"
    by (rule stateAfter.simps(2)[symmetric])
  finally show ?case .
qed

lemma time_shift: "t + int (Suc j) * sl = t + sl + int j * sl"
  by (simp add: algebra_simps)

lemma poll_run:
  fixes loop :: "'r \<Rightarrow> int \<Rightarrow> call list \<Rightarrow> ((error + 'o) \<times> call list) option"
  assumes eq: "\<And>s t h. loop s t h = pollStep go nxt out g timeout sl loop s t h"
    and cont: "\<And>j. j < n \<Longrightarrow> continues go timeout (t + int j * sl) (stateAfter nxt g sl s h j)"
    and stop: "\<not> continues go timeout (t + int n * sl) (stateAfter nxt g sl s h n)"
  shows "loop s t h = Some (outcome out (stateAfter nxt g sl s h n), h @ rounds g sl n)"
  using cont stop
proof (induction n arbitrary: s t h)
  case 0
  then show ?case
    by (subst eq) (auto simp: pollStep_def continues_def outcome_def)
next
  case (Suc n)
  let ?h = "h @ [Sleep sl, g]"
  from Suc.prems(1)[of 0] have go0: "go s" "t \<le> timeout" by (simp_all add: continues_def)
  show ?case
  proof (cases "nxt s ?h")
    case (Inl e)
    then have s1: "stateAfter nxt g sl s h (Suc 0) = Inl e" by (simp add: rounds_Suc)
    have "n = 0"
    proof (rule ccontr)
      assume "n \<noteq> 0"
      then have "Suc 0 < Suc n" by simp
      from Suc.prems(1)[OF this] s1 show False by (simp add: continues_def)
    qed
    with Inl go0 s1 show ?thesis
      by (subst eq) (simp add: pollStep_def outcome_def rounds_Suc)
  next
    case (Inr s')
    note sh = stateAfter_shift[where nxt = nxt and s = s and h = h and g = g and sl = sl, OF Inr]
    have c: "\<And>j. j < n \<Longrightarrow> continues go timeout (t + sl + int j * sl) (stateAfter nxt g sl s' ?h j)"
    proof -
      fix j assume "j < n"
      then have "Suc j < Suc n" by simp
      from Suc.prems(1)[OF this] show "continues go timeout (t + sl + int j * sl) (stateAfter nxt g sl s' ?h j)"
        unfolding sh time_shift .
    qed
    have st: "\<not> continues go timeout (t + sl + int n * sl) (stateAfter nxt g sl s' ?h n)"
      using Suc.prems(2) unfolding sh time_shift .
    have "loop s t h = loop s' (t + sl) ?h"
      using Inr go0 by (subst eq) (simp add: pollStep_def)
    also have "\<dots> = Some (outcome out (stateAfter nxt g sl s' ?h n), ?h @ rounds g sl n)"
      by (rule Suc.IH[OF c st])
    finally show ?thesis unfolding sh by (simp add: rounds_Suc)
  qed
qed

lemma poll_returns:
  fixes loop :: "'r \<Rightarrow> int \<Rightarrow> call list \<Rightarrow> ((error + 'o) \<times> call list) option"
  assumes ind: "\<And>P s t h y. loop s t h = Some y \<Longrightarrow>
       (\<And>f s t h y. (\<And>s t h y. f s t h = Some y \<Longrightarrow> P s t h y)
            \<Longrightarrow> pollStep go nxt out g timeout sl f s t h = Some y \<Longrightarrow> P s t h y)
       \<Longrightarrow> P s t h y"
    and ret: "loop s t h = Some y"
  shows "\<exists>n. y = (outcome out (stateAfter nxt g sl s h n), h @ rounds g sl n)
        \<and> (\<forall>j<n. continues go timeout (t + int j * sl) (stateAfter nxt g sl s h j))
        \<and> \<not> continues go timeout (t + int n * sl) (stateAfter nxt g sl s h n)"
proof (rule ind[where P = "\<lambda>s t h y. \<exists>n. y = (outcome out (stateAfter nxt g sl s h n), h @ rounds g sl n)
        \<and> (\<forall>j<n. continues go timeout (t + int j * sl) (stateAfter nxt g sl s h j))
        \<and> \<not> continues go timeout (t + int n * sl) (stateAfter nxt g sl s h n)", OF ret])
  fix f :: "'r \<Rightarrow> int \<Rightarrow> call list \<Rightarrow> ((error + 'o) \<times> call list) option"
  fix s t h y
  assume IH: "\<And>s t h y. f s t h = Some y \<Longrightarrow> \<exists>n. y = (outcome out (stateAfter nxt g sl s h n), h @ rounds g sl n)
        \<and> (\<forall>j<n. continues go timeout (t + int j * sl) (stateAfter nxt g sl s h j))
        \<and> \<not> continues go timeout (t + int n * sl) (stateAfter nxt g sl s h n)"
    and step: "pollStep go nxt out g timeout sl f s t h = Some y"
  let ?h = "h @ [Sleep sl, g]"
  show "\<exists>n. y = (outcome out (stateAfter nxt g sl s h n), h @ rounds g sl n)
        \<and> (\<forall>j<n. continues go timeout (t + int j * sl) (stateAfter nxt g sl s h j))
        \<and> \<not> continues go timeout (t + int n * sl) (stateAfter nxt g sl s h n)"
  proof (cases "go s \<and> t \<le> timeout")
    case False
    with step have "y = (Inr (out s), h)" by (auto simp: pollStep_def)
    with False show ?thesis
      by (intro exI[of _ 0]) (simp add: continues_def outcome_def)
  next
    case True
    then have c0: "continues go timeout t (stateAfter nxt g sl s h 0)"
      by (simp add: continues_def)
    show ?thesis
    proof (cases "nxt s ?h")
      case (Inl e)
      with True step have "y = (Inl e, ?h)" by (auto simp: pollStep_def)
      with True Inl show ?thesis
        by (intro exI[of _ "Suc 0"]) (simp add: continues_def outcome_def rounds_Suc)
    next
      case (Inr s')
      note sh = stateAfter_shift[where nxt = nxt and s = s and h = h and g = g and sl = sl, OF Inr]
      from Inr True step have "f s' (t + sl) ?h = Some y" by (auto simp: pollStep_def)
      from IH[OF this] obtain n where n:
        "y = (outcome out (stateAfter nxt g sl s' ?h n), ?h @ rounds g sl n)"
        "\<forall>j<n. continues go timeout (t + sl + int j * sl) (stateAfter nxt g sl s' ?h j)"
        "\<not> continues go timeout (t + sl + int n * sl) (stateAfter nxt g sl s' ?h n)"
        by blast
      have "\<forall>j<Suc n. continues go timeout (t + int j * sl) (stateAfter nxt g sl s h j)"
      proof (intro allI impI)
        fix j assume j: "j < Suc n"
        show "continues go timeout (t + int j * sl) (stateAfter nxt g sl s h j)"
        proof (cases j)
          case 0 with c0 show ?thesis by simp
        next
          case (Suc k)
          with j n(2) have "continues go timeout (t + sl + int k * sl) (stateAfter nxt g sl s' ?h k)"
            by simp
          then show ?thesis unfolding Suc sh time_shift .
        qed
      qed
      moreover have "\<not> continues go timeout (t + int (Suc n) * sl) (stateAfter nxt g sl s h (Suc n))"
        using n(3) unfolding sh time_shift .
      moreover have "y = (outcome out (stateAfter nxt g sl s h (Suc n)), h @ rounds g sl (Suc n))"
        using n(1) unfolding sh by (simp add: rounds_Suc)
      ultimately show ?thesis by blast
    qed
  qed
qed

lemma budget_exceeds:
  assumes "0 < sl"
  shows "\<not> t + int (budget timeout sl t) * sl \<le> timeout"
proof (cases "t \<le> timeout")
  case False
  then show ?thesis by (simp add: budget_def)
next
  case True
  define d where "d = timeout - t"
  have d0: "0 \<le> d" using True by (simp add: d_def)
  with assms have q0: "0 \<le> d div sl" by (simp add: pos_imp_zdiv_nonneg_iff)
  have "d = sl * (d div sl) + d mod sl" by simp
  moreover have "d mod sl < sl" using assms by simp
  ultimately have "d < sl * (d div sl) + sl" by linarith
  then have "d < (d div sl + 1) * sl" by (simp add: algebra_simps)
  moreover have "int (budget timeout sl t) = d div sl + 1"
    using True q0 by (simp add: budget_def d_def)
  ultimately show ?thesis by (simp add: d_def)
qed

lemma poll_terminates:
  fixes loop :: "'r \<Rightarrow> int \<Rightarrow> call list \<Rightarrow> ((error + 'o) \<times> call list) option"
  assumes eq: "\<And>s t h. loop s t h = pollStep go nxt out g timeout sl loop s t h"
    and pos: "0 < sl"
  shows "\<exists>n\<le>budget timeout sl t.
           loop s t h = Some (outcome out (stateAfter nxt g sl s h n), h @ rounds g sl n)
         \<and> (\<forall>j<n. continues go timeout (t + int j * sl) (stateAfter nxt g sl s h j))
         \<and> \<not> continues go timeout (t + int n * sl) (stateAfter nxt g sl s h n)"
proof -
  let ?stops = "\<lambda>n. \<not> continues go timeout (t + int n * sl) (stateAfter nxt g sl s h n)"
  let ?N = "budget timeout sl t"
  have N: "?stops ?N"
    using budget_exceeds[OF pos, of t timeout]
    by (simp add: continues_def split: sum.splits)
  define n where "n = (LEAST n. ?stops n)"
  have sn: "?stops n" unfolding n_def using N by (rule LeastI)
  have le: "n \<le> ?N" unfolding n_def using N by (rule Least_le)
  have before: "\<And>j. j < n \<Longrightarrow> continues go timeout (t + int j * sl) (stateAfter nxt g sl s h j)"
  proof -
    fix j assume "j < n"
    then have "\<not> ?stops j" unfolding n_def by (rule not_less_Least)
    then show "continues go timeout (t + int j * sl) (stateAfter nxt g sl s h j)" by simp
  qed
  from poll_run[where loop = loop, OF eq before sn] le before sn show ?thesis by blast
qed

lemma inducts_poll_returns:
  fixes loop :: "'r \<Rightarrow> int \<Rightarrow> call list \<Rightarrow> ((error + 'o) \<times> call list) option"
  assumes ind: "inducts (pollStep go nxt out g timeout sl) loop"
    and ret: "loop s t h = Some y"
  shows "\<exists>n. y = (outcome out (stateAfter nxt g sl s h n), h @ rounds g sl n)
        \<and> (\<forall>j<n. continues go timeout (t + int j * sl) (stateAfter nxt g sl s h j))
        \<and> \<not> continues go timeout (t + int n * sl) (stateAfter nxt g sl s h n)"
proof (rule poll_returns[where loop = loop and go = go and nxt = nxt and out = out and g = g
      and timeout = timeout and sl = sl])
  fix P :: "'r \<Rightarrow> int \<Rightarrow> call list \<Rightarrow> (error + 'o) \<times> call list \<Rightarrow> bool"
  fix s t h y
  assume r: "loop s t h = Some y"
    and st: "\<And>f s t h y. (\<And>s t h y. f s t h = Some y \<Longrightarrow> P s t h y)
            \<Longrightarrow> pollStep go nxt out g timeout sl f s t h = Some y \<Longrightarrow> P s t h y"
  from st have "\<forall>f. (\<forall>s t h y. f s t h = Some y \<longrightarrow> P s t h y)
                \<longrightarrow> (\<forall>s t h y. pollStep go nxt out g timeout sl f s t h = Some y \<longrightarrow> P s t h y)"
    by blast
  with ind r show "P s t h y" unfolding inducts_def by blast
qed (rule ret)

subsection \<open>Loops whose next state is the answer itself\<close>

lemma continues_Inr:
  "continues go timeout t r \<Longrightarrow> \<exists>s. r = Inr s"
  by (cases r) (simp_all add: continues_def)

lemma outcome_id [simp]: "outcome id r = r"
  by (cases r) (simp_all add: outcome_def)

lemma plain_states_of_states:
  assumes cur: "resp h = Inr s"
    and ok: "\<And>j. j < n \<Longrightarrow> \<exists>s'. stateAfter (\<lambda>s. resp) g sl s h j = Inr s'"
    and le: "j \<le> n"
  shows "stateAfter (\<lambda>s. resp) g sl s h j = resp (h @ rounds g sl j)"
proof (cases j)
  case 0
  with cur show ?thesis by simp
next
  case (Suc k)
  with le have "k < n" by simp
  from ok[OF this] obtain s' where "stateAfter (\<lambda>s. resp) g sl s h k = Inr s'" ..
  then show ?thesis unfolding Suc by simp
qed

lemma plain_states_of_resps:
  assumes cur: "resp h = Inr s"
    and ok: "\<And>j. j < n \<Longrightarrow> \<exists>s'. resp (h @ rounds g sl j) = Inr s'"
  shows "j \<le> n \<Longrightarrow> stateAfter (\<lambda>s. resp) g sl s h j = resp (h @ rounds g sl j)"
proof (induction j)
  case 0
  with cur show ?case by simp
next
  case (Suc k)
  then have k: "k < n" and st: "stateAfter (\<lambda>s. resp) g sl s h k = resp (h @ rounds g sl k)"
    by simp_all
  from ok[OF k] obtain s' where "resp (h @ rounds g sl k) = Inr s'" ..
  with st show ?case by simp
qed

lemma plain_run:
  fixes loop :: "'r \<Rightarrow> int \<Rightarrow> call list \<Rightarrow> ((error + 'r) \<times> call list) option"
  assumes eq: "\<And>s t h. loop s t h = pollStep go (\<lambda>s. resp) id g timeout sl loop s t h"
    and cur: "resp h = Inr s"
    and cont: "\<And>j. j < n \<Longrightarrow> continues go timeout (t + int j * sl) (resp (h @ rounds g sl j))"
    and stop: "\<not> continues go timeout (t + int n * sl) (resp (h @ rounds g sl n))"
  shows "loop s t h = Some (resp (h @ rounds g sl n), h @ rounds g sl n)"
proof -
  have st: "\<And>j. j \<le> n \<Longrightarrow> stateAfter (\<lambda>s. resp) g sl s h j = resp (h @ rounds g sl j)"
    by (rule plain_states_of_resps[where resp = resp and h = h, OF cur]) (auto dest: cont continues_Inr)
  have "loop s t h = Some (outcome id (stateAfter (\<lambda>s. resp) g sl s h n), h @ rounds g sl n)"
  proof (rule poll_run[where loop = loop and go = go and timeout = timeout, OF eq])
    fix j assume "j < n"
    with cont[OF this] st[of j]
    show "continues go timeout (t + int j * sl) (stateAfter (\<lambda>s. resp) g sl s h j)" by simp
  next
    from stop st[of n]
    show "\<not> continues go timeout (t + int n * sl) (stateAfter (\<lambda>s. resp) g sl s h n)" by simp
  qed
  with st[of n] show ?thesis by simp
qed

lemma plain_returns:
  fixes loop :: "'r \<Rightarrow> int \<Rightarrow> call list \<Rightarrow> ((error + 'r) \<times> call list) option"
  assumes ind: "inducts (pollStep go (\<lambda>s. resp) id g timeout sl) loop"
    and cur: "resp h = Inr s"
    and ret: "loop s t h = Some y"
  shows "\<exists>n. y = (resp (h @ rounds g sl n), h @ rounds g sl n)
        \<and> (\<forall>j<n. continues go timeout (t + int j * sl) (resp (h @ rounds g sl j)))
        \<and> \<not> continues go timeout (t + int n * sl) (resp (h @ rounds g sl n))"
proof -
  from inducts_poll_returns[where loop = loop and go = go and timeout = timeout and out = id
      and nxt = "\<lambda>s. resp" and g = g and sl = sl, OF ind ret]
  obtain n where n:
    "y = (outcome id (stateAfter (\<lambda>s. resp) g sl s h n), h @ rounds g sl n)"
    "\<forall>j<n. continues go timeout (t + int j * sl) (stateAfter (\<lambda>s. resp) g sl s h j)"
    "\<not> continues go timeout (t + int n * sl) (stateAfter (\<lambda>s. resp) g sl s h n)"
    by blast
  have st: "\<And>j. j \<le> n \<Longrightarrow> stateAfter (\<lambda>s. resp) g sl s h j = resp (h @ rounds g sl j)"
    by (rule plain_states_of_states[where resp = resp and h = h, OF cur]) (use n(2) in \<open>auto dest: continues_Inr\<close>)
  from n st show ?thesis by (intro exI[of _ n]) simp
qed

lemma plain_terminates:
  fixes loop :: "'r \<Rightarrow> int \<Rightarrow> call list \<Rightarrow> ((error + 'r) \<times> call list) option"
  assumes eq: "\<And>s t h. loop s t h = pollStep go (\<lambda>s. resp) id g timeout sl loop s t h"
    and cur: "resp h = Inr s"
    and pos: "0 < sl"
  shows "\<exists>n\<le>budget timeout sl t.
           loop s t h = Some (resp (h @ rounds g sl n), h @ rounds g sl n)
         \<and> (\<forall>j<n. continues go timeout (t + int j * sl) (resp (h @ rounds g sl j)))
         \<and> \<not> continues go timeout (t + int n * sl) (resp (h @ rounds g sl n))"
proof -
  from poll_terminates[where loop = loop and go = go and timeout = timeout and out = id
      and nxt = "\<lambda>s. resp" and g = g and sl = sl, OF eq pos, of t s h]
  obtain n where n: "n \<le> budget timeout sl t"
    "loop s t h = Some (outcome id (stateAfter (\<lambda>s. resp) g sl s h n), h @ rounds g sl n)"
    "\<forall>j<n. continues go timeout (t + int j * sl) (stateAfter (\<lambda>s. resp) g sl s h j)"
    "\<not> continues go timeout (t + int n * sl) (stateAfter (\<lambda>s. resp) g sl s h n)"
    by blast
  have st: "\<And>j. j \<le> n \<Longrightarrow> stateAfter (\<lambda>s. resp) g sl s h j = resp (h @ rounds g sl j)"
    by (rule plain_states_of_states[where resp = resp and h = h, OF cur]) (use n(3) in \<open>auto dest: continues_Inr\<close>)
  from n st show ?thesis by (intro exI[of _ n]) simp
qed

subsection \<open>A first fetch followed by such a loop\<close>

lemma first_run:
  fixes loop :: "'r \<Rightarrow> int \<Rightarrow> call list \<Rightarrow> ((error + 'r) \<times> call list) option"
  assumes eq: "\<And>s t h. loop s t h = pollStep go (\<lambda>s. resp) id g timeout sl loop s t h"
    and weq: "wait = (case resp (tr @ [g]) of
                        Inl e \<Rightarrow> Some (Inl e, tr @ [g])
                      | Inr s \<Rightarrow> loop s 0 (tr @ [g]))"
    and cont: "\<And>j. j < n \<Longrightarrow> continues go timeout (int j * sl) (resp (tr @ pollCalls g sl j))"
    and stop: "\<not> continues go timeout (int n * sl) (resp (tr @ pollCalls g sl n))"
  shows "wait = Some (resp (tr @ pollCalls g sl n), tr @ pollCalls g sl n)"
proof (cases "resp (tr @ [g])")
  case (Inl e)
  have "n = 0"
  proof (rule ccontr)
    assume "n \<noteq> 0"
    then have "0 < n" by simp
    from cont[OF this] Inl show False by (simp add: pollCalls_def continues_def)
  qed
  with Inl weq show ?thesis by (simp add: pollCalls_def)
next
  case (Inr s)
  have "loop s 0 (tr @ [g]) = Some (resp ((tr @ [g]) @ rounds g sl n), (tr @ [g]) @ rounds g sl n)"
    by (rule plain_run[where loop = loop and go = go and timeout = timeout, OF eq Inr])
       (use cont stop in \<open>simp_all add: pollCalls_def\<close>)
  with Inr weq show ?thesis by (simp add: pollCalls_def)
qed

lemma first_returns:
  fixes loop :: "'r \<Rightarrow> int \<Rightarrow> call list \<Rightarrow> ((error + 'r) \<times> call list) option"
  assumes ind: "inducts (pollStep go (\<lambda>s. resp) id g timeout sl) loop"
    and weq: "wait = (case resp (tr @ [g]) of
                        Inl e \<Rightarrow> Some (Inl e, tr @ [g])
                      | Inr s \<Rightarrow> loop s 0 (tr @ [g]))"
    and ret: "wait = Some y"
  shows "\<exists>n. y = (resp (tr @ pollCalls g sl n), tr @ pollCalls g sl n)
        \<and> (\<forall>j<n. continues go timeout (int j * sl) (resp (tr @ pollCalls g sl j)))
        \<and> \<not> continues go timeout (int n * sl) (resp (tr @ pollCalls g sl n))"
proof (cases "resp (tr @ [g])")
  case (Inl e)
  with weq ret have "y = (Inl e, tr @ [g])" by simp
  with Inl show ?thesis
    by (intro exI[of _ 0]) (simp add: pollCalls_def continues_def)
next
  case (Inr s)
  with weq ret have "loop s 0 (tr @ [g]) = Some y" by simp
  from plain_returns[where loop = loop and go = go and timeout = timeout and g = g and sl = sl,
      OF ind Inr this]
  show ?thesis by (simp add: pollCalls_def)
qed

lemma first_terminates:
  fixes loop :: "'r \<Rightarrow> int \<Rightarrow> call list \<Rightarrow> ((error + 'r) \<times> call list) option"
  assumes eq: "\<And>s t h. loop s t h = pollStep go (\<lambda>s. resp) id g timeout sl loop s t h"
    and weq: "wait = (case resp (tr @ [g]) of
                        Inl e \<Rightarrow> Some (Inl e, tr @ [g])
                      | Inr s \<Rightarrow> loop s 0 (tr @ [g]))"
    and pos: "0 < sl"
  shows "\<exists>n\<le>budget timeout sl 0.
           wait = Some (resp (tr @ pollCalls g sl n), tr @ pollCalls g sl n)
         \<and> (\<forall>j<n. continues go timeout (int j * sl) (resp (tr @ pollCalls g sl j)))
         \<and> \<not> continues go timeout (int n * sl) (resp (tr @ pollCalls g sl n))"
proof (cases "resp (tr @ [g])")
  case (Inl e)
  with weq show ?thesis
    by (intro exI[of _ 0]) (simp add: pollCalls_def continues_def)
next
  case (Inr s)
  from plain_terminates[where loop = loop and go = go and timeout = timeout and g = g and sl = sl,
      OF eq Inr pos, of 0]
  show ?thesis using Inr weq by (simp add: pollCalls_def)
qed

subsection \<open>The five loops are of the shared shape\<close>

lemma sub_eq:
  "waitSubscriptionLoop svc sid e timeout sl s t h =
     pollStep (\<lambda>s. statusPending e ''error'' (sub_status s)) (\<lambda>s. svc_getSubscription svc) id
       (GetSubscription sid) timeout sl (waitSubscriptionLoop svc sid e timeout sl) s t h"
  by (subst waitSubscriptionLoop.simps)
     (simp add: pollStep_def statusPending_def getSubscription_def sleep_def Let_def split: sum.splits)

lemma sub_inducts:
  "inducts (pollStep (\<lambda>s. statusPending e ''error'' (sub_status s)) (\<lambda>s. svc_getSubscription svc) id
       (GetSubscription sid) timeout sl) (waitSubscriptionLoop svc sid e timeout sl)"
  unfolding inducts_def
proof (intro allI impI)
  fix P s t h y
  assume step: "\<forall>f. (\<forall>s t h y. f s t h = Some y \<longrightarrow> P s t h y) \<longrightarrow>
      (\<forall>s t h y. pollStep (\<lambda>s. statusPending e ''error'' (sub_status s)) (\<lambda>s. svc_getSubscription svc) id
            (GetSubscription sid) timeout sl f s t h = Some y \<longrightarrow> P s t h y)"
    and ret: "waitSubscriptionLoop svc sid e timeout sl s t h = Some y"
  from ret step show "P s t h y"
  proof (induction rule: waitSubscriptionLoop.raw_induct[rotated 1, consumes 1])
    case (1 f svc sid e timeout sl s t h y)
    have "pollStep (\<lambda>s. statusPending e ''error'' (sub_status s)) (\<lambda>s. svc_getSubscription svc) id
            (GetSubscription sid) timeout sl (f svc sid e timeout sl) s t h = Some y"
      using 1(2)
      by (auto simp add: pollStep_def statusPending_def getSubscription_def sleep_def Let_def
            split: sum.splits if_splits)
    moreover have "\<forall>s t h y. f svc sid e timeout sl s t h = Some y \<longrightarrow> P s t h y"
      using 1(1) 1(3) by blast
    ultimately show ?case using 1(3) by blast
  qed
qed

lemma sub_weq:
  "waitForSubscriptionStatus svc sid e (Some timeout) (Some sl) tr =
     (case svc_getSubscription svc (tr @ [GetSubscription sid]) of
        Inl er \<Rightarrow> Some (Inl er, tr @ [GetSubscription sid])
      | Inr s \<Rightarrow> waitSubscriptionLoop svc sid e timeout sl s 0 (tr @ [GetSubscription sid]))"
  by (simp add: waitForSubscriptionStatus_def getSubscription_def Let_def split: sum.splits)

lemma db_eq:
  "waitDatabaseLoop svc sid did e timeout sl s t h =
     pollStep (\<lambda>s. statusPending e ''error'' (db_status s)) (\<lambda>s. svc_getDatabase svc) id
       (GetDatabase sid did) timeout sl (waitDatabaseLoop svc sid did e timeout sl) s t h"
  by (subst waitDatabaseLoop.simps)
     (simp add: pollStep_def statusPending_def getDatabase_def sleep_def Let_def split: sum.splits)

lemma db_inducts:
  "inducts (pollStep (\<lambda>s. statusPending e ''error'' (db_status s)) (\<lambda>s. svc_getDatabase svc) id
       (GetDatabase sid did) timeout sl) (waitDatabaseLoop svc sid did e timeout sl)"
  unfolding inducts_def
proof (intro allI impI)
  fix P s t h y
  assume step: "\<forall>f. (\<forall>s t h y. f s t h = Some y \<longrightarrow> P s t h y) \<longrightarrow>
      (\<forall>s t h y. pollStep (\<lambda>s. statusPending e ''error'' (db_status s)) (\<lambda>s. svc_getDatabase svc) id
            (GetDatabase sid did) timeout sl f s t h = Some y \<longrightarrow> P s t h y)"
    and ret: "waitDatabaseLoop svc sid did e timeout sl s t h = Some y"
  from ret step show "P s t h y"
  proof (induction rule: waitDatabaseLoop.raw_induct[rotated 1, consumes 1])
    case (1 f svc sid did e timeout sl s t h y)
    have "pollStep (\<lambda>s. statusPending e ''error'' (db_status s)) (\<lambda>s. svc_getDatabase svc) id
            (GetDatabase sid did) timeout sl (f svc sid did e timeout sl) s t h = Some y"
      using 1(2)
      by (auto simp add: pollStep_def statusPending_def getDatabase_def sleep_def Let_def
            split: sum.splits if_splits)
    moreover have "\<forall>s t h y. f svc sid did e timeout sl s t h = Some y \<longrightarrow> P s t h y"
      using 1(1) 1(3) by blast
    ultimately show ?case using 1(3) by blast
  qed
qed

lemma db_weq:
  "waitForDatabaseStatus svc sid did e (Some timeout) (Some sl) tr =
     (case svc_getDatabase svc (tr @ [GetDatabase sid did]) of
        Inl er \<Rightarrow> Some (Inl er, tr @ [GetDatabase sid did])
      | Inr s \<Rightarrow> waitDatabaseLoop svc sid did e timeout sl s 0 (tr @ [GetDatabase sid did]))"
  by (simp add: waitForDatabaseStatus_def getDatabase_def Let_def split: sum.splits)

lemma ca_eq:
  "waitCloudAccountLoop svc cid e timeout sl s t h =
     pollStep (\<lambda>s. statusPending e ''error'' (ca_status s)) (\<lambda>s. svc_getCloudAccount svc) id
       (GetCloudAccount cid) timeout sl (waitCloudAccountLoop svc cid e timeout sl) s t h"
  by (subst waitCloudAccountLoop.simps)
     (simp add: pollStep_def statusPending_def getCloudAccount_def sleep_def Let_def split: sum.splits)

lemma ca_inducts:
  "inducts (pollStep (\<lambda>s. statusPending e ''error'' (ca_status s)) (\<lambda>s. svc_getCloudAccount svc) id
       (GetCloudAccount cid) timeout sl) (waitCloudAccountLoop svc cid e timeout sl)"
  unfolding inducts_def
proof (intro allI impI)
  fix P s t h y
  assume step: "\<forall>f. (\<forall>s t h y. f s t h = Some y \<longrightarrow> P s t h y) \<longrightarrow>
      (\<forall>s t h y. pollStep (\<lambda>s. statusPending e ''error'' (ca_status s)) (\<lambda>s. svc_getCloudAccount svc) id
            (GetCloudAccount cid) timeout sl f s t h = Some y \<longrightarrow> P s t h y)"
    and ret: "waitCloudAccountLoop svc cid e timeout sl s t h = Some y"
  from ret step show "P s t h y"
  proof (induction rule: waitCloudAccountLoop.raw_induct[rotated 1, consumes 1])
    case (1 f svc cid e timeout sl s t h y)
    have "pollStep (\<lambda>s. statusPending e ''error'' (ca_status s)) (\<lambda>s. svc_getCloudAccount svc) id
            (GetCloudAccount cid) timeout sl (f svc cid e timeout sl) s t h = Some y"
      using 1(2)
      by (auto simp add: pollStep_def statusPending_def getCloudAccount_def sleep_def Let_def
            split: sum.splits if_splits)
    moreover have "\<forall>s t h y. f svc cid e timeout sl s t h = Some y \<longrightarrow> P s t h y"
      using 1(1) 1(3) by blast
    ultimately show ?case using 1(3) by blast
  qed
qed

lemma ca_weq:
  "waitForCloudAccountStatus svc cid e (Some timeout) (Some sl) tr =
     (case svc_getCloudAccount svc (tr @ [GetCloudAccount cid]) of
        Inl er \<Rightarrow> Some (Inl er, tr @ [GetCloudAccount cid])
      | Inr s \<Rightarrow> waitCloudAccountLoop svc cid e timeout sl s 0 (tr @ [GetCloudAccount cid]))"
  by (simp add: waitForCloudAccountStatus_def getCloudAccount_def Let_def split: sum.splits)

lemma task_eq:
  "taskWaitLoop svc tid e timeout sl s t h =
     pollStep (\<lambda>s. statusPending e ''error'' (task_status s)) (\<lambda>s. svc_getTask svc) id
       (GetTask tid) timeout sl (taskWaitLoop svc tid e timeout sl) s t h"
  by (subst taskWaitLoop.simps)
     (simp add: pollStep_def statusPending_def getTask_def sleep_def Let_def split: sum.splits)

lemma task_inducts:
  "inducts (pollStep (\<lambda>s. statusPending e ''error'' (task_status s)) (\<lambda>s. svc_getTask svc) id
       (GetTask tid) timeout sl) (taskWaitLoop svc tid e timeout sl)"
  unfolding inducts_def
proof (intro allI impI)
  fix P s t h y
  assume step: "\<forall>f. (\<forall>s t h y. f s t h = Some y \<longrightarrow> P s t h y) \<longrightarrow>
      (\<forall>s t h y. pollStep (\<lambda>s. statusPending e ''error'' (task_status s)) (\<lambda>s. svc_getTask svc) id
            (GetTask tid) timeout sl f s t h = Some y \<longrightarrow> P s t h y)"
    and ret: "taskWaitLoop svc tid e timeout sl s t h = Some y"
  from ret step show "P s t h y"
  proof (induction rule: taskWaitLoop.raw_induct[rotated 1, consumes 1])
    case (1 f svc tid e timeout sl s t h y)
    have "pollStep (\<lambda>s. statusPending e ''error'' (task_status s)) (\<lambda>s. svc_getTask svc) id
            (GetTask tid) timeout sl (f svc tid e timeout sl) s t h = Some y"
      using 1(2)
      by (auto simp add: pollStep_def statusPending_def getTask_def sleep_def Let_def
            split: sum.splits if_splits)
    moreover have "\<forall>s t h y. f svc tid e timeout sl s t h = Some y \<longrightarrow> P s t h y"
      using 1(1) 1(3) by blast
    ultimately show ?case using 1(3) by blast
  qed
qed

lemma task_weq:
  "waitForTaskStatus svc tid e (Some timeout) (Some sl) tr =
     (case svc_getTask svc (tr @ [GetTask tid]) of
        Inl er \<Rightarrow> Some (Inl er, tr @ [GetTask tid])
      | Inr s \<Rightarrow> taskWaitLoop svc tid e timeout sl s 0 (tr @ [GetTask tid]))"
  by (simp add: waitForTaskStatus_def task_waitForTaskStatus_def getTask_def Let_def split: sum.splits)

lemma vpc_eq:
  "(\<lambda>(vp, st). waitVpcPeeringLoop svc sid vid e timeout sl vp st) s t h =
     pollStep (\<lambda>(vp, st). statusPending e ''failed'' st) (vpcNext svc vid) fst
       (GetVpcPeerings sid) timeout sl (\<lambda>(vp, st). waitVpcPeeringLoop svc sid vid e timeout sl vp st) s t h"
  by (cases s, simp, subst waitVpcPeeringLoop.simps)
     (simp add: pollStep_def statusPending_def vpcNext_def vpcLookup_def getVpcPeerings_def sleep_def
        Let_def split: sum.splits option.splits)

lemma vpc_inducts:
  "inducts (pollStep (\<lambda>(vp, st). statusPending e ''failed'' st) (vpcNext svc vid) fst
       (GetVpcPeerings sid) timeout sl) (\<lambda>(vp, st). waitVpcPeeringLoop svc sid vid e timeout sl vp st)"
  unfolding inducts_def
proof (intro allI impI)
  fix P s t h y
  assume step: "\<forall>f. (\<forall>s t h y. f s t h = Some y \<longrightarrow> P s t h y) \<longrightarrow>
      (\<forall>s t h y. pollStep (\<lambda>(vp, st). statusPending e ''failed'' st) (vpcNext svc vid) fst
            (GetVpcPeerings sid) timeout sl f s t h = Some y \<longrightarrow> P s t h y)"
    and ret: "(\<lambda>(vp, st). waitVpcPeeringLoop svc sid vid e timeout sl vp st) s t h = Some y"
  obtain vp st where s: "s = (vp, st)" by (cases s)
  from ret have "waitVpcPeeringLoop svc sid vid e timeout sl vp st t h = Some y"
    unfolding s by simp
  from this step have "P (vp, st) t h y"
  proof (induction rule: waitVpcPeeringLoop.raw_induct[rotated 1, consumes 1])
    case (1 f svc sid vid e timeout sl vp st t h y)
    have "pollStep (\<lambda>(vp, st). statusPending e ''failed'' st) (vpcNext svc vid) fst
            (GetVpcPeerings sid) timeout sl (\<lambda>(vp, st). f svc sid vid e timeout sl vp st) (vp, st) t h = Some y"
      using 1(2)
      by (auto simp add: pollStep_def statusPending_def vpcNext_def vpcLookup_def getVpcPeerings_def
            sleep_def Let_def split: sum.splits if_splits option.splits)
    moreover have "\<forall>s t h y. (\<lambda>(vp, st). f svc sid vid e timeout sl vp st) s t h = Some y \<longrightarrow> P s t h y"
    proof (intro allI impI)
      fix s t h y
      assume a: "(\<lambda>(vp, st). f svc sid vid e timeout sl vp st) s t h = Some y"
      obtain vp st where s: "s = (vp, st)" by (cases s)
      from a have "f svc sid vid e timeout sl vp st t h = Some y" unfolding s by simp
      then have "P (vp, st) t h y" using 1(3) by (rule 1(1))
      then show "P s t h y" unfolding s .
    qed
    ultimately show ?case using 1(3) by blast
  qed
  then show "P s t h y" unfolding s .
qed

subsection \<open>Counting iterations and fetches\<close>

lemma within_budget:
  assumes pos: "0 < sl" and le: "t \<le> timeout" and j: "j < budget timeout sl t"
  shows "t + int j * sl \<le> timeout"
proof -
  define d where "d = timeout - t"
  have d0: "0 \<le> d" using le by (simp add: d_def)
  with pos have q0: "0 \<le> d div sl" by (simp add: pos_imp_zdiv_nonneg_iff)
  from j le q0 have "int j \<le> d div sl" by (simp add: budget_def d_def)
  with pos have "int j * sl \<le> (d div sl) * sl" by (simp add: mult_right_mono)
  also have "\<dots> \<le> d"
  proof -
    have "(d div sl) * sl = d - d mod sl" by (simp add: minus_mod_eq_div_mult)
    moreover have "0 \<le> d mod sl" using pos by simp
    ultimately show ?thesis by linarith
  qed
  finally show ?thesis by (simp add: d_def)
qed

lemma budget_0: "0 \<le> timeout \<Longrightarrow> budget timeout sl 0 = nat (timeout div sl) + 1"
  by (simp add: budget_def)

lemma fetches_rounds: "isFetch g \<Longrightarrow> fetches (rounds g sl n) = n"
  by (induction n) (simp_all add: fetches_def rounds_Suc)

lemma fetches_pollCalls: "isFetch g \<Longrightarrow> fetches (pollCalls g sl n) = n + 1"
  by (simp add: pollCalls_def fetches_def fetches_rounds[unfolded fetches_def])

subsection \<open>Runs of the helpers\<close>

lemma pending_run:
  fixes loop :: "'r \<Rightarrow> int \<Rightarrow> call list \<Rightarrow> ((error + 'r) \<times> call list) option"
  assumes eq: "\<And>s t h. loop s t h =
        pollStep (\<lambda>s. statusPending e ''error'' (statusOf s)) (\<lambda>s. resp) id g timeout sl loop s t h"
    and weq: "wait = (case resp (tr @ [g]) of
                        Inl e \<Rightarrow> Some (Inl e, tr @ [g])
                      | Inr s \<Rightarrow> loop s 0 (tr @ [g]))"
    and pos: "0 < sl" and t0: "0 \<le> timeout"
    and pend: "\<And>h. pendingAnswer e statusOf (resp h)"
  shows "wait = Some (resp (tr @ pollCalls g sl (nat (timeout div sl) + 1)),
                      tr @ pollCalls g sl (nat (timeout div sl) + 1))"
proof -
  let ?n = "budget timeout sl 0"
  have "wait = Some (resp (tr @ pollCalls g sl ?n), tr @ pollCalls g sl ?n)"
  proof (rule first_run[where loop = loop and timeout = timeout, OF eq weq])
    fix j assume "j < ?n"
    from within_budget[OF pos t0 this] pend[of "tr @ pollCalls g sl j"]
    show "continues (\<lambda>s. statusPending e ''error'' (statusOf s)) timeout (int j * sl)
            (resp (tr @ pollCalls g sl j))"
      by (simp add: continues_def pendingAnswer_def split: sum.splits)
  next
    from budget_exceeds[OF pos, of 0 timeout]
    show "\<not> continues (\<lambda>s. statusPending e ''error'' (statusOf s)) timeout (int ?n * sl)
            (resp (tr @ pollCalls g sl ?n))"
      by (simp add: continues_def split: sum.splits)
  qed
  with t0 show ?thesis by (simp add: budget_0)
qed

lemma vpc_quiet_state:
  assumes p0: "statusPending e ''failed'' st0"
    and q: "\<And>j. 0 < j \<Longrightarrow> j \<le> n \<Longrightarrow>
              vpcFoundPending e vid (svc_getVpcPeerings svc (h @ rounds g sl j))
              \<or> vpcLookup vid (svc_getVpcPeerings svc (h @ rounds g sl j)) = Inr None"
  shows "\<exists>v st. stateAfter (vpcNext svc vid) g sl (vp0, st0) h n = Inr (v, st)
           \<and> statusPending e ''failed'' st"
  using q
proof (induction n)
  case 0
  with p0 show ?case by simp
next
  case (Suc n)
  from Suc.IH Suc.prems obtain v st where
    st: "stateAfter (vpcNext svc vid) g sl (vp0, st0) h n = Inr (v, st)"
    and p: "statusPending e ''failed'' st" by auto
  from Suc.prems[of "Suc n"]
  have "vpcFoundPending e vid (svc_getVpcPeerings svc (h @ rounds g sl (Suc n)))
      \<or> vpcLookup vid (svc_getVpcPeerings svc (h @ rounds g sl (Suc n))) = Inr None" by simp
  moreover have "stateAfter (vpcNext svc vid) g sl (vp0, st0) h (Suc n) =
      vpcNext svc vid (v, st) (h @ rounds g sl (Suc n))"
    using st by simp
  ultimately show ?case using p unfolding vpcNext_def vpcFoundPending_def
    by (auto split: sum.splits option.splits)
qed

lemma vpc_outcome_last:
  "stateAfter (vpcNext svc vid) g sl s h n = Inr s' \<Longrightarrow>
   outcome fst (stateAfter (vpcNext svc vid) g sl s h (Suc n)) =
     vpcLookup vid (svc_getVpcPeerings svc (h @ rounds g sl (Suc n)))"
proof -
  assume "stateAfter (vpcNext svc vid) g sl s h n = Inr s'"
  then have "stateAfter (vpcNext svc vid) g sl s h (Suc n) =
      vpcNext svc vid s' (h @ rounds g sl (Suc n))" by simp
  then show ?thesis unfolding vpcNext_def outcome_def
    by (simp split: sum.splits option.splits)
qed

lemma vpc_quiet_timeout:
  assumes pos: "0 < sl" and le: "t \<le> timeout"
    and p0: "statusPending e ''failed'' st0"
    and q: "\<And>j. 0 < j \<Longrightarrow>
              vpcFoundPending e vid (svc_getVpcPeerings svc (h @ rounds (GetVpcPeerings sid) sl j))
              \<or> vpcLookup vid (svc_getVpcPeerings svc (h @ rounds (GetVpcPeerings sid) sl j)) = Inr None"
  shows "waitVpcPeeringLoop svc sid vid e timeout sl vp0 st0 t h =
     Some (vpcLookup vid (svc_getVpcPeerings svc (h @ rounds (GetVpcPeerings sid) sl (budget timeout sl t))),
           h @ rounds (GetVpcPeerings sid) sl (budget timeout sl t))"
proof -
  let ?g = "GetVpcPeerings sid"
  let ?n = "budget timeout sl t"
  let ?loop = "\<lambda>(vp, st). waitVpcPeeringLoop svc sid vid e timeout sl vp st"
  let ?go = "\<lambda>(vp :: vpcPeering option, st). statusPending e ''failed'' st"
  have states: "\<And>j. \<exists>v st. stateAfter (vpcNext svc vid) ?g sl (vp0, st0) h j = Inr (v, st)
           \<and> statusPending e ''failed'' st"
    by (rule vpc_quiet_state[OF p0]) (rule q)
  have "?loop (vp0, st0) t h =
     Some (outcome fst (stateAfter (vpcNext svc vid) ?g sl (vp0, st0) h ?n), h @ rounds ?g sl ?n)"
  proof (rule poll_run[where loop = ?loop and go = ?go and timeout = timeout and out = fst, OF vpc_eq])
    fix j assume "j < ?n"
    from within_budget[OF pos le this] states[of j]
    show "continues ?go timeout (t + int j * sl) (stateAfter (vpcNext svc vid) ?g sl (vp0, st0) h j)"
      by (auto simp add: continues_def)
  next
    from budget_exceeds[OF pos, of t timeout]
    show "\<not> continues ?go timeout (t + int ?n * sl) (stateAfter (vpcNext svc vid) ?g sl (vp0, st0) h ?n)"
      by (simp add: continues_def split: sum.splits)
  qed
  moreover from le obtain m where m: "?n = Suc m" by (auto simp add: budget_def)
  moreover from states[of m] obtain s' where
    "stateAfter (vpcNext svc vid) ?g sl (vp0, st0) h m = Inr s'" by auto
  note vpc_outcome_last[OF this]
  ultimately show ?thesis by simp
qed

lemma vpc_weq:
  "vpcPeeringPolled svc sid vid e (Some timeout) (Some sl) tr =
     (case vpcLookup vid (svc_getVpcPeerings svc (tr @ [GetVpcPeerings sid])) of
        Inl er \<Rightarrow> Some (Inl er, tr @ [GetVpcPeerings sid])
      | Inr None \<Rightarrow> Some (Inr None, tr @ [GetVpcPeerings sid])
      | Inr (Some p) \<Rightarrow>
          waitVpcPeeringLoop svc sid vid e timeout sl (Some p) (vpc_status p) 0 (tr @ [GetVpcPeerings sid]))"
  by (simp add: vpcPeeringPolled_def getVpcPeerings_def vpcLookup_def Let_def
        split: sum.splits option.splits)

lemma vpc_outcome:
  assumes first: "vpcLookup vid (svc_getVpcPeerings svc h) = Inr vp0"
    and ok: "\<And>j. j < n \<Longrightarrow> \<exists>s'. stateAfter (vpcNext svc vid) g sl (vp0, st0) h j = Inr s'"
  shows "outcome fst (stateAfter (vpcNext svc vid) g sl (vp0, st0) h n) =
           vpcLookup vid (svc_getVpcPeerings svc (h @ rounds g sl n))"
proof (cases n)
  case 0
  with first show ?thesis by (simp add: outcome_def)
next
  case (Suc m)
  then have "m < n" by simp
  from ok[OF this] obtain s' where "stateAfter (vpcNext svc vid) g sl (vp0, st0) h m = Inr s'" ..
  from vpc_outcome_last[OF this] show ?thesis unfolding Suc .
qed

lemma vpc_first_returns:
  assumes ret: "vpcPeeringPolled svc sid vid e (Some timeout) (Some sl) tr = Some y"
  shows "\<exists>n. y = (vpcLookup vid (svc_getVpcPeerings svc (tr @ pollCalls (GetVpcPeerings sid) sl n)),
                  tr @ pollCalls (GetVpcPeerings sid) sl n)"
proof -
  let ?g = "GetVpcPeerings sid"
  let ?h = "tr @ [?g]"
  show ?thesis
  proof (cases "vpcLookup vid (svc_getVpcPeerings svc ?h)")
    case (Inl er)
    with ret have "y = (Inl er, ?h)" by (simp add: vpc_weq)
    with Inl show ?thesis by (intro exI[of _ 0]) (simp add: pollCalls_def)
  next
    case (Inr vp)
    show ?thesis
    proof (cases vp)
      case None
      with Inr ret have "y = (Inr None, ?h)" by (simp add: vpc_weq)
      with Inr None show ?thesis by (intro exI[of _ 0]) (simp add: pollCalls_def)
    next
      case (Some p)
      with Inr ret have "(\<lambda>(vp, st). waitVpcPeeringLoop svc sid vid e timeout sl vp st)
          (Some p, vpc_status p) 0 ?h = Some y"
        by (simp add: vpc_weq)
      from inducts_poll_returns[OF vpc_inducts this] obtain n where n:
        "y = (outcome fst (stateAfter (vpcNext svc vid) ?g sl (Some p, vpc_status p) ?h n),
              ?h @ rounds ?g sl n)"
        "\<forall>j<n. continues (\<lambda>(vp, st). statusPending e ''failed'' st) timeout (0 + int j * sl)
                 (stateAfter (vpcNext svc vid) ?g sl (Some p, vpc_status p) ?h j)"
        by blast
      have "outcome fst (stateAfter (vpcNext svc vid) ?g sl (Some p, vpc_status p) ?h n) =
              vpcLookup vid (svc_getVpcPeerings svc (?h @ rounds ?g sl n))"
      proof (rule vpc_outcome)
        show "vpcLookup vid (svc_getVpcPeerings svc ?h) = Inr (Some p)" using Inr Some by simp
      next
        fix j assume "j < n"
        with n(2) have "continues (\<lambda>(vp, st). statusPending e ''failed'' st) timeout (0 + int j * sl)
                 (stateAfter (vpcNext svc vid) ?g sl (Some p, vpc_status p) ?h j)" by blast
        then show "\<exists>s'. stateAfter (vpcNext svc vid) ?g sl (Some p, vpc_status p) ?h j = Inr s'"
          by (rule continues_Inr)
      qed
      with n(1) show ?thesis by (intro exI[of _ n]) (simp add: pollCalls_def)
    qed
  qed
qed

lemma vpc_first_terminates:
  assumes pos: "0 < sl"
  shows "\<exists>n\<le>budget timeout sl 0.
     vpcPeeringPolled svc sid vid e (Some timeout) (Some sl) tr =
       Some (vpcLookup vid (svc_getVpcPeerings svc (tr @ pollCalls (GetVpcPeerings sid) sl n)),
             tr @ pollCalls (GetVpcPeerings sid) sl n)"
proof -
  let ?g = "GetVpcPeerings sid"
  let ?h = "tr @ [?g]"
  show ?thesis
  proof (cases "vpcLookup vid (svc_getVpcPeerings svc ?h)")
    case (Inl er)
    then show ?thesis by (intro exI[of _ 0]) (simp add: vpc_weq pollCalls_def)
  next
    case (Inr vp)
    show ?thesis
    proof (cases vp)
      case None
      with Inr show ?thesis by (intro exI[of _ 0]) (simp add: vpc_weq pollCalls_def)
    next
      case (Some p)
      from poll_terminates[where loop = "\<lambda>(vp, st). waitVpcPeeringLoop svc sid vid e timeout sl vp st"
          and timeout = timeout, OF vpc_eq pos, of 0 "(Some p, vpc_status p)" ?h]
      obtain n where n: "n \<le> budget timeout sl 0"
        "waitVpcPeeringLoop svc sid vid e timeout sl (Some p) (vpc_status p) 0 ?h =
           Some (outcome fst (stateAfter (vpcNext svc vid) ?g sl (Some p, vpc_status p) ?h n),
                 ?h @ rounds ?g sl n)"
        "\<forall>j<n. continues (\<lambda>(vp, st). statusPending e ''failed'' st) timeout (0 + int j * sl)
                 (stateAfter (vpcNext svc vid) ?g sl (Some p, vpc_status p) ?h j)"
        by auto
      have "outcome fst (stateAfter (vpcNext svc vid) ?g sl (Some p, vpc_status p) ?h n) =
              vpcLookup vid (svc_getVpcPeerings svc (?h @ rounds ?g sl n))"
      proof (rule vpc_outcome)
        show "vpcLookup vid (svc_getVpcPeerings svc ?h) = Inr (Some p)" using Inr Some by simp
      next
        fix j assume "j < n"
        with n(3) have "continues (\<lambda>(vp, st). statusPending e ''failed'' st) timeout (0 + int j * sl)
                 (stateAfter (vpcNext svc vid) ?g sl (Some p, vpc_status p) ?h j)" by blast
        then show "\<exists>s'. stateAfter (vpcNext svc vid) ?g sl (Some p, vpc_status p) ?h j = Inr s'"
          by (rule continues_Inr)
      qed
      with n(1,2) Inr Some show ?thesis
        by (intro exI[of _ n]) (simp add: vpc_weq pollCalls_def)
    qed
  qed
qed

lemma vpc_found_run:
  assumes cont: "\<And>j. j < n \<Longrightarrow>
        vpcFoundPending e vid (svc_getVpcPeerings svc (tr @ pollCalls (GetVpcPeerings sid) sl j))
        \<and> int j * sl \<le> timeout"
    and last: "vpcLookup vid (svc_getVpcPeerings svc (tr @ pollCalls (GetVpcPeerings sid) sl n)) = Inr (Some p)"
    and stop: "\<not> (statusPending e ''failed'' (vpc_status p) \<and> int n * sl \<le> timeout)"
  shows "vpcPeeringPolled svc sid vid e (Some timeout) (Some sl) tr =
           Some (Inr (Some p), tr @ pollCalls (GetVpcPeerings sid) sl n)"
proof -
  let ?g = "GetVpcPeerings sid"
  let ?h = "tr @ [?g]"
  let ?loop = "\<lambda>(vp, st). waitVpcPeeringLoop svc sid vid e timeout sl vp st"
  let ?go = "\<lambda>(vp :: vpcPeering option, st). statusPending e ''failed'' st"
  obtain p0 where p0: "vpcLookup vid (svc_getVpcPeerings svc ?h) = Inr (Some p0)"
    and pend0: "0 < n \<Longrightarrow> statusPending e ''failed'' (vpc_status p0)"
  proof (cases n)
    case 0
    with last have "vpcLookup vid (svc_getVpcPeerings svc ?h) = Inr (Some p)"
      by (simp add: pollCalls_def)
    with 0 that show ?thesis by simp
  next
    case (Suc m)
    then have "0 < n" by simp
    from cont[OF this] that show ?thesis
      by (auto simp add: vpcFoundPending_def pollCalls_def split: sum.splits option.splits)
  qed
  let ?s0 = "(Some p0, vpc_status p0)"
  have states: "\<And>j. j < n \<Longrightarrow> \<exists>v st. stateAfter (vpcNext svc vid) ?g sl ?s0 ?h j = Inr (v, st)
           \<and> statusPending e ''failed'' st"
  proof -
    fix j assume j: "j < n"
    then have "0 < n" by simp
    show "\<exists>v st. stateAfter (vpcNext svc vid) ?g sl ?s0 ?h j = Inr (v, st)
           \<and> statusPending e ''failed'' st"
    proof (rule vpc_quiet_state[OF pend0[OF \<open>0 < n\<close>]])
      fix i assume "0 < i" "i \<le> j"
      with j have "i < n" by simp
      from cont[OF this]
      show "vpcFoundPending e vid (svc_getVpcPeerings svc (?h @ rounds ?g sl i))
          \<or> vpcLookup vid (svc_getVpcPeerings svc (?h @ rounds ?g sl i)) = Inr None"
        by (simp add: pollCalls_def)
    qed
  qed
  have final: "stateAfter (vpcNext svc vid) ?g sl ?s0 ?h n = Inr (Some p, vpc_status p)"
  proof (cases n)
    case 0
    with last p0 show ?thesis by (simp add: pollCalls_def)
  next
    case (Suc m)
    then have "m < n" by simp
    from states[OF this] obtain v st where
      "stateAfter (vpcNext svc vid) ?g sl ?s0 ?h m = Inr (v, st)" by blast
    then have "stateAfter (vpcNext svc vid) ?g sl ?s0 ?h (Suc m) =
        vpcNext svc vid (v, st) (?h @ rounds ?g sl (Suc m))" by simp
    also have "\<dots> = Inr (Some p, vpc_status p)"
      using last unfolding Suc vpcNext_def by (simp add: pollCalls_def)
    finally show ?thesis unfolding Suc .
  qed
  have "?loop ?s0 0 ?h = Some (outcome fst (stateAfter (vpcNext svc vid) ?g sl ?s0 ?h n), ?h @ rounds ?g sl n)"
  proof (rule poll_run[where loop = ?loop and go = ?go and timeout = timeout and out = fst, OF vpc_eq])
    fix j assume j: "j < n"
    from states[OF j] cont[OF j]
    show "continues ?go timeout (0 + int j * sl) (stateAfter (vpcNext svc vid) ?g sl ?s0 ?h j)"
      by (auto simp add: continues_def)
  next
    from stop show "\<not> continues ?go timeout (0 + int n * sl) (stateAfter (vpcNext svc vid) ?g sl ?s0 ?h n)"
      unfolding final by (simp add: continues_def)
  qed
  with p0 show ?thesis unfolding final by (simp add: vpc_weq outcome_def pollCalls_def)
qed

lemma sentinel_run:
  fixes loop :: "'r \<Rightarrow> int \<Rightarrow> call list \<Rightarrow> ((error + 'r) \<times> call list) option"
  assumes eq: "\<And>s t h. loop s t h =
        pollStep (\<lambda>s. statusPending e ''error'' (statusOf s)) (\<lambda>s. resp) id g timeout sl loop s t h"
    and weq: "wait = (case resp (tr @ [g]) of
                        Inl e \<Rightarrow> Some (Inl e, tr @ [g])
                      | Inr s \<Rightarrow> loop s 0 (tr @ [g]))"
    and cont: "\<forall>j<n. pendingAnswer e statusOf (resp (tr @ pollCalls g sl j)) \<and> int j * sl \<le> timeout"
    and last: "resp (tr @ pollCalls g sl n) = Inr s"
    and stop: "statusOf s = Some (Str ''error'')"
  shows "wait = Some (Inr s, tr @ pollCalls g sl n)"
proof -
  have "wait = Some (resp (tr @ pollCalls g sl n), tr @ pollCalls g sl n)"
  proof (rule first_run[where loop = loop and timeout = timeout, OF eq weq])
    fix j assume "j < n"
    with cont show "continues (\<lambda>s. statusPending e ''error'' (statusOf s)) timeout (int j * sl)
            (resp (tr @ pollCalls g sl j))"
      by (auto simp add: continues_def pendingAnswer_def split: sum.splits)
  next
    from last stop
    show "\<not> continues (\<lambda>s. statusPending e ''error'' (statusOf s)) timeout (int n * sl)
            (resp (tr @ pollCalls g sl n))"
      by (simp add: continues_def statusPending_def)
  qed
  with last show ?thesis by simp
qed

lemma never_returns:
  fixes loop :: "'r \<Rightarrow> int \<Rightarrow> call list \<Rightarrow> ((error + 'r) \<times> call list) option"
  assumes ind: "inducts (pollStep (\<lambda>s. statusPending e ''error'' (statusOf s)) (\<lambda>s. resp) id g timeout 0) loop"
    and weq: "wait = (case resp (tr @ [g]) of
                        Inl e \<Rightarrow> Some (Inl e, tr @ [g])
                      | Inr s \<Rightarrow> loop s 0 (tr @ [g]))"
    and t0: "0 \<le> timeout"
    and pend: "\<forall>h. pendingAnswer e statusOf (resp h)"
  shows "wait = None"
proof (rule ccontr)
  assume "wait \<noteq> None"
  then obtain y where "wait = Some y" by auto
  from first_returns[where loop = loop and timeout = timeout and sl = 0, OF ind weq this]
  obtain n where "\<not> continues (\<lambda>s. statusPending e ''error'' (statusOf s)) timeout (int n * 0)
      (resp (tr @ pollCalls g 0 n))" by blast
  with t0 pend show False
    by (auto simp add: continues_def pendingAnswer_def split: sum.splits)
qed

lemma vpc_never_returns:
  assumes t0: "0 \<le> timeout"
    and pend: "\<forall>h. vpcFoundPending e vid (svc_getVpcPeerings svc h)"
  shows "vpcPeeringPolled svc sid vid e (Some timeout) (Some 0) tr = None"
proof (rule ccontr)
  let ?g = "GetVpcPeerings sid"
  let ?h = "tr @ [?g]"
  assume "vpcPeeringPolled svc sid vid e (Some timeout) (Some 0) tr \<noteq> None"
  then obtain y where y: "vpcPeeringPolled svc sid vid e (Some timeout) (Some 0) tr = Some y"
    by auto
  from pend have "vpcFoundPending e vid (svc_getVpcPeerings svc ?h)" by simp
  then obtain p where p: "vpcLookup vid (svc_getVpcPeerings svc ?h) = Inr (Some p)"
    and pp: "statusPending e ''failed'' (vpc_status p)"
    by (auto simp add: vpcFoundPending_def split: sum.splits option.splits)
  from y p have "(\<lambda>(vp, st). waitVpcPeeringLoop svc sid vid e timeout 0 vp st)
      (Some p, vpc_status p) 0 ?h = Some y"
    by (simp add: vpc_weq)
  from inducts_poll_returns[OF vpc_inducts this] obtain n where
    n: "\<not> continues (\<lambda>(vp, st). statusPending e ''failed'' st) timeout (0 + int n * 0)
        (stateAfter (vpcNext svc vid) ?g 0 (Some p, vpc_status p) ?h n)" by blast
  have "\<exists>v st. stateAfter (vpcNext svc vid) ?g 0 (Some p, vpc_status p) ?h n = Inr (v, st)
           \<and> statusPending e ''failed'' st"
    by (rule vpc_quiet_state[OF pp]) (use pend in simp)
  with n t0 show False by (auto simp add: continues_def)
qed

lemma bounded_wait:
  fixes loop :: "'r \<Rightarrow> int \<Rightarrow> call list \<Rightarrow> ((error + 'r) \<times> call list) option"
  assumes eq: "\<And>s t h. loop s t h = pollStep go (\<lambda>s. resp) id g timeout sl loop s t h"
    and weq: "wait = (case resp (tr @ [g]) of
                        Inl e \<Rightarrow> Some (Inl e, tr @ [g])
                      | Inr s \<Rightarrow> loop s 0 (tr @ [g]))"
    and pos: "0 < sl" and t0: "0 \<le> timeout"
  shows "\<exists>r n. wait = Some (r, tr @ pollCalls g sl n) \<and> int n + 1 \<le> timeout div sl + 2"
proof -
  from first_terminates[where loop = loop and timeout = timeout, OF eq weq pos]
  obtain n where n: "n \<le> budget timeout sl 0"
    "wait = Some (resp (tr @ pollCalls g sl n), tr @ pollCalls g sl n)" by blast
  from pos t0 have "0 \<le> timeout div sl" by (simp add: pos_imp_zdiv_nonneg_iff)
  with n(1) t0 have "int n + 1 \<le> timeout div sl + 2" by (simp add: budget_0)
  with n(2) show ?thesis by blast
qed

lemma goes_on:
  fixes loop :: "'r \<Rightarrow> int \<Rightarrow> call list \<Rightarrow> ((error + 'o) \<times> call list) option"
  assumes ind: "inducts (pollStep go nxt out g timeout sl) loop"
    and ret: "loop s t h = Some y"
    and go: "go s" and le: "t \<le> timeout"
  shows "\<exists>n. snd y = h @ rounds g sl (Suc n)"
proof -
  from inducts_poll_returns[OF ind ret] obtain n where
    n: "y = (outcome out (stateAfter nxt g sl s h n), h @ rounds g sl n)"
    "\<not> continues go timeout (t + int n * sl) (stateAfter nxt g sl s h n)" by blast
  have "n \<noteq> 0"
  proof
    assume "n = 0"
    with n(2) go le show False by (simp add: continues_def)
  qed
  then obtain m where "n = Suc m" by (cases n) auto
  with n(1) show ?thesis by auto
qed

lemma set_pollCalls: "set (pollCalls g sl n) \<subseteq> {g, Sleep sl}"
  by (induction n) (auto simp add: pollCalls_def rounds_Suc)

subsection \<open>The helpers up to their return\<close>

text \<open>
  What the helpers do in the three situations of the specification, with
  \<^verbatim>\<open>waitForVpcPeeringStatus\<close> taken up to the end of its \<^verbatim>\<open>if\<close> statement
  (\<open>vpcPeeringPolled\<close>): the expected status at the first fetch, the sentinel
  after \<open>n\<close> fetches, and the answer of the last fetch as the result.
\<close>

lemma polled_once_when_expected:
  "(svc_getSubscription svc (tr @ [GetSubscription subscriptionId]) = Inr subscription
      \<and> sub_status subscription = Some expectedStatus
    \<longrightarrow> waitForSubscriptionStatus svc subscriptionId expectedStatus timeoutArg sleepTimeArg tr =
          Some (Inr subscription, tr @ [GetSubscription subscriptionId]))
   \<and> (svc_getVpcPeerings svc (tr @ [GetVpcPeerings subscriptionId]) = Inr vpcPeerings
      \<and> find (\<lambda>p. vpc_id p = vpcPeeringId) vpcPeerings = Some vpcPeering
      \<and> vpc_status vpcPeering = Some expectedStatus
    \<longrightarrow> vpcPeeringPolled svc subscriptionId vpcPeeringId expectedStatus timeoutArg sleepTimeArg tr =
          Some (Inr (Some vpcPeering), tr @ [GetVpcPeerings subscriptionId]))
   \<and> (svc_getDatabase svc (tr @ [GetDatabase subscriptionId databaseId]) = Inr database
      \<and> db_status database = Some expectedStatus
    \<longrightarrow> waitForDatabaseStatus svc subscriptionId databaseId expectedStatus timeoutArg sleepTimeArg tr =
          Some (Inr database, tr @ [GetDatabase subscriptionId databaseId]))
   \<and> (svc_getCloudAccount svc (tr @ [GetCloudAccount cloudAccountId]) = Inr cloudAccount
      \<and> ca_status cloudAccount = Some expectedStatus
    \<longrightarrow> waitForCloudAccountStatus svc cloudAccountId expectedStatus timeoutArg sleepTimeArg tr =
          Some (Inr cloudAccount, tr @ [GetCloudAccount cloudAccountId]))
   \<and> (svc_getTask svc (tr @ [GetTask taskId]) = Inr task
      \<and> task_status task = Some expectedStatus
    \<longrightarrow> waitForTaskStatus svc taskId expectedStatus timeoutArg sleepTimeArg tr =
          Some (Inr task, tr @ [GetTask taskId]))
   \<and> map (\<lambda>g. fetches (tr @ [g]))
        [GetSubscription subscriptionId, GetVpcPeerings subscriptionId,
         GetDatabase subscriptionId databaseId, GetCloudAccount cloudAccountId, GetTask taskId] =
       replicate 5 (fetches tr + 1)
   \<and> map (\<lambda>g. sleeps (tr @ [g]))
        [GetSubscription subscriptionId, GetVpcPeerings subscriptionId,
         GetDatabase subscriptionId databaseId, GetCloudAccount cloudAccountId, GetTask taskId] =
       replicate 5 (sleeps tr)"
proof (intro conjI impI)
  assume "svc_getSubscription svc (tr @ [GetSubscription subscriptionId]) = Inr subscription
      \<and> sub_status subscription = Some expectedStatus"
  then show "waitForSubscriptionStatus svc subscriptionId expectedStatus timeoutArg sleepTimeArg tr =
          Some (Inr subscription, tr @ [GetSubscription subscriptionId])"
    by (simp add: waitForSubscriptionStatus_def getSubscription_def Let_def)
       (subst waitSubscriptionLoop.simps, simp)
next
  assume "svc_getVpcPeerings svc (tr @ [GetVpcPeerings subscriptionId]) = Inr vpcPeerings
      \<and> find (\<lambda>p. vpc_id p = vpcPeeringId) vpcPeerings = Some vpcPeering
      \<and> vpc_status vpcPeering = Some expectedStatus"
  then show "vpcPeeringPolled svc subscriptionId vpcPeeringId expectedStatus timeoutArg sleepTimeArg tr =
          Some (Inr (Some vpcPeering), tr @ [GetVpcPeerings subscriptionId])"
    by (simp add: vpcPeeringPolled_def getVpcPeerings_def Let_def)
       (subst waitVpcPeeringLoop.simps, simp)
next
  assume "svc_getDatabase svc (tr @ [GetDatabase subscriptionId databaseId]) = Inr database
      \<and> db_status database = Some expectedStatus"
  then show "waitForDatabaseStatus svc subscriptionId databaseId expectedStatus timeoutArg sleepTimeArg tr =
          Some (Inr database, tr @ [GetDatabase subscriptionId databaseId])"
    by (simp add: waitForDatabaseStatus_def getDatabase_def Let_def)
       (subst waitDatabaseLoop.simps, simp)
next
  assume "svc_getCloudAccount svc (tr @ [GetCloudAccount cloudAccountId]) = Inr cloudAccount
      \<and> ca_status cloudAccount = Some expectedStatus"
  then show "waitForCloudAccountStatus svc cloudAccountId expectedStatus timeoutArg sleepTimeArg tr =
          Some (Inr cloudAccount, tr @ [GetCloudAccount cloudAccountId])"
    by (simp add: waitForCloudAccountStatus_def getCloudAccount_def Let_def)
       (subst waitCloudAccountLoop.simps, simp)
next
  assume "svc_getTask svc (tr @ [GetTask taskId]) = Inr task
      \<and> task_status task = Some expectedStatus"
  then show "waitForTaskStatus svc taskId expectedStatus timeoutArg sleepTimeArg tr =
          Some (Inr task, tr @ [GetTask taskId])"
    by (simp add: waitForTaskStatus_def task_waitForTaskStatus_def getTask_def Let_def)
       (subst taskWaitLoop.simps, simp)
next
  show "map (\<lambda>g. fetches (tr @ [g]))
        [GetSubscription subscriptionId, GetVpcPeerings subscriptionId,
         GetDatabase subscriptionId databaseId, GetCloudAccount cloudAccountId, GetTask taskId] =
       replicate 5 (fetches tr + 1)"
    by (simp add: fetches_def numeral_eq_Suc)
next
  show "map (\<lambda>g. sleeps (tr @ [g]))
        [GetSubscription subscriptionId, GetVpcPeerings subscriptionId,
         GetDatabase subscriptionId databaseId, GetCloudAccount cloudAccountId, GetTask taskId] =
       replicate 5 (sleeps tr)"
    by (simp add: sleeps_def numeral_eq_Suc)
qed

lemma polled_until_sentinel:
  "((\<forall>j<n. pendingAnswer e sub_status (svc_getSubscription svc (tr @ pollCalls (GetSubscription sid) sl j))
            \<and> int j * sl \<le> timeout)
      \<and> svc_getSubscription svc (tr @ pollCalls (GetSubscription sid) sl n) = Inr subscription
      \<and> sub_status subscription = Some (Str ''error'')
    \<longrightarrow> waitForSubscriptionStatus svc sid e (Some timeout) (Some sl) tr =
          Some (Inr subscription, tr @ pollCalls (GetSubscription sid) sl n))
   \<and> ((\<forall>j<n. vpcFoundPending e vid (svc_getVpcPeerings svc (tr @ pollCalls (GetVpcPeerings sid) sl j))
            \<and> int j * sl \<le> timeout)
      \<and> vpcLookup vid (svc_getVpcPeerings svc (tr @ pollCalls (GetVpcPeerings sid) sl n)) = Inr (Some vpcPeering)
      \<and> vpc_status vpcPeering = Some (Str ''failed'')
    \<longrightarrow> vpcPeeringPolled svc sid vid e (Some timeout) (Some sl) tr =
          Some (Inr (Some vpcPeering), tr @ pollCalls (GetVpcPeerings sid) sl n))
   \<and> ((\<forall>j<n. pendingAnswer e db_status (svc_getDatabase svc (tr @ pollCalls (GetDatabase sid did) sl j))
            \<and> int j * sl \<le> timeout)
      \<and> svc_getDatabase svc (tr @ pollCalls (GetDatabase sid did) sl n) = Inr database
      \<and> db_status database = Some (Str ''error'')
    \<longrightarrow> waitForDatabaseStatus svc sid did e (Some timeout) (Some sl) tr =
          Some (Inr database, tr @ pollCalls (GetDatabase sid did) sl n))
   \<and> ((\<forall>j<n. pendingAnswer e ca_status (svc_getCloudAccount svc (tr @ pollCalls (GetCloudAccount cid) sl j))
            \<and> int j * sl \<le> timeout)
      \<and> svc_getCloudAccount svc (tr @ pollCalls (GetCloudAccount cid) sl n) = Inr cloudAccount
      \<and> ca_status cloudAccount = Some (Str ''error'')
    \<longrightarrow> waitForCloudAccountStatus svc cid e (Some timeout) (Some sl) tr =
          Some (Inr cloudAccount, tr @ pollCalls (GetCloudAccount cid) sl n))
   \<and> ((\<forall>j<n. pendingAnswer e task_status (svc_getTask svc (tr @ pollCalls (GetTask tid) sl j))
            \<and> int j * sl \<le> timeout)
      \<and> svc_getTask svc (tr @ pollCalls (GetTask tid) sl n) = Inr task
      \<and> task_status task = Some (Str ''error'')
    \<longrightarrow> waitForTaskStatus svc tid e (Some timeout) (Some sl) tr =
          Some (Inr task, tr @ pollCalls (GetTask tid) sl n))"
proof (intro conjI impI)
  assume "(\<forall>j<n. pendingAnswer e sub_status (svc_getSubscription svc (tr @ pollCalls (GetSubscription sid) sl j))
            \<and> int j * sl \<le> timeout)
      \<and> svc_getSubscription svc (tr @ pollCalls (GetSubscription sid) sl n) = Inr subscription
      \<and> sub_status subscription = Some (Str ''error'')"
  then show "waitForSubscriptionStatus svc sid e (Some timeout) (Some sl) tr =
          Some (Inr subscription, tr @ pollCalls (GetSubscription sid) sl n)"
    by (intro sentinel_run[where loop = "waitSubscriptionLoop svc sid e timeout sl"
          and statusOf = sub_status, OF sub_eq sub_weq]) simp_all
next
  assume "(\<forall>j<n. pendingAnswer e db_status (svc_getDatabase svc (tr @ pollCalls (GetDatabase sid did) sl j))
            \<and> int j * sl \<le> timeout)
      \<and> svc_getDatabase svc (tr @ pollCalls (GetDatabase sid did) sl n) = Inr database
      \<and> db_status database = Some (Str ''error'')"
  then show "waitForDatabaseStatus svc sid did e (Some timeout) (Some sl) tr =
          Some (Inr database, tr @ pollCalls (GetDatabase sid did) sl n)"
    by (intro sentinel_run[where loop = "waitDatabaseLoop svc sid did e timeout sl"
          and statusOf = db_status, OF db_eq db_weq]) simp_all
next
  assume "(\<forall>j<n. pendingAnswer e ca_status (svc_getCloudAccount svc (tr @ pollCalls (GetCloudAccount cid) sl j))
            \<and> int j * sl \<le> timeout)
      \<and> svc_getCloudAccount svc (tr @ pollCalls (GetCloudAccount cid) sl n) = Inr cloudAccount
      \<and> ca_status cloudAccount = Some (Str ''error'')"
  then show "waitForCloudAccountStatus svc cid e (Some timeout) (Some sl) tr =
          Some (Inr cloudAccount, tr @ pollCalls (GetCloudAccount cid) sl n)"
    by (intro sentinel_run[where loop = "waitCloudAccountLoop svc cid e timeout sl"
          and statusOf = ca_status, OF ca_eq ca_weq]) simp_all
next
  assume "(\<forall>j<n. pendingAnswer e task_status (svc_getTask svc (tr @ pollCalls (GetTask tid) sl j))
            \<and> int j * sl \<le> timeout)
      \<and> svc_getTask svc (tr @ pollCalls (GetTask tid) sl n) = Inr task
      \<and> task_status task = Some (Str ''error'')"
  then show "waitForTaskStatus svc tid e (Some timeout) (Some sl) tr =
          Some (Inr task, tr @ pollCalls (GetTask tid) sl n)"
    by (intro sentinel_run[where loop = "taskWaitLoop svc tid e timeout sl"
          and statusOf = task_status, OF task_eq task_weq]) simp_all
next
  assume a: "(\<forall>j<n. vpcFoundPending e vid (svc_getVpcPeerings svc (tr @ pollCalls (GetVpcPeerings sid) sl j))
            \<and> int j * sl \<le> timeout)
      \<and> vpcLookup vid (svc_getVpcPeerings svc (tr @ pollCalls (GetVpcPeerings sid) sl n)) = Inr (Some vpcPeering)
      \<and> vpc_status vpcPeering = Some (Str ''failed'')"
  show "vpcPeeringPolled svc sid vid e (Some timeout) (Some sl) tr =
          Some (Inr (Some vpcPeering), tr @ pollCalls (GetVpcPeerings sid) sl n)"
    by (rule vpc_found_run) (use a in \<open>simp_all add: statusPending_def\<close>)
qed

lemma polled_last_answer:
  "(\<forall>y. waitForSubscriptionStatus svc sid e (Some timeout) (Some sl) tr = Some y \<longrightarrow>
        (\<exists>n. y = (svc_getSubscription svc (tr @ pollCalls (GetSubscription sid) sl n),
                   tr @ pollCalls (GetSubscription sid) sl n)))
   \<and> (0 < sl \<longrightarrow> waitForSubscriptionStatus svc sid e (Some timeout) (Some sl) tr \<noteq> None)
   \<and> (\<forall>y. vpcPeeringPolled svc sid vid e (Some timeout) (Some sl) tr = Some y \<longrightarrow>
        (\<exists>n. y = (vpcLookup vid (svc_getVpcPeerings svc (tr @ pollCalls (GetVpcPeerings sid) sl n)),
                   tr @ pollCalls (GetVpcPeerings sid) sl n)))
   \<and> (0 < sl \<longrightarrow> vpcPeeringPolled svc sid vid e (Some timeout) (Some sl) tr \<noteq> None)
   \<and> (\<forall>y. waitForDatabaseStatus svc sid did e (Some timeout) (Some sl) tr = Some y \<longrightarrow>
        (\<exists>n. y = (svc_getDatabase svc (tr @ pollCalls (GetDatabase sid did) sl n),
                   tr @ pollCalls (GetDatabase sid did) sl n)))
   \<and> (0 < sl \<longrightarrow> waitForDatabaseStatus svc sid did e (Some timeout) (Some sl) tr \<noteq> None)
   \<and> (\<forall>y. waitForCloudAccountStatus svc cid e (Some timeout) (Some sl) tr = Some y \<longrightarrow>
        (\<exists>n. y = (svc_getCloudAccount svc (tr @ pollCalls (GetCloudAccount cid) sl n),
                   tr @ pollCalls (GetCloudAccount cid) sl n)))
   \<and> (0 < sl \<longrightarrow> waitForCloudAccountStatus svc cid e (Some timeout) (Some sl) tr \<noteq> None)
   \<and> (\<forall>y. waitForTaskStatus svc tid e (Some timeout) (Some sl) tr = Some y \<longrightarrow>
        (\<exists>n. y = (svc_getTask svc (tr @ pollCalls (GetTask tid) sl n),
                   tr @ pollCalls (GetTask tid) sl n)))
   \<and> (0 < sl \<longrightarrow> waitForTaskStatus svc tid e (Some timeout) (Some sl) tr \<noteq> None)"
proof (intro conjI allI impI)
  fix y assume "waitForSubscriptionStatus svc sid e (Some timeout) (Some sl) tr = Some y"
  from first_returns[where loop = "waitSubscriptionLoop svc sid e timeout sl", OF sub_inducts sub_weq this]
  show "\<exists>n. y = (svc_getSubscription svc (tr @ pollCalls (GetSubscription sid) sl n),
                   tr @ pollCalls (GetSubscription sid) sl n)" by blast
next
  assume "0 < sl"
  from first_terminates[where loop = "waitSubscriptionLoop svc sid e timeout sl" and tr = tr, OF sub_eq sub_weq this]
  show "waitForSubscriptionStatus svc sid e (Some timeout) (Some sl) tr \<noteq> None" by auto
next
  fix y assume "vpcPeeringPolled svc sid vid e (Some timeout) (Some sl) tr = Some y"
  then show "\<exists>n. y = (vpcLookup vid (svc_getVpcPeerings svc (tr @ pollCalls (GetVpcPeerings sid) sl n)),
                   tr @ pollCalls (GetVpcPeerings sid) sl n)"
    by (rule vpc_first_returns)
next
  assume "0 < sl"
  from vpc_first_terminates[OF this, of timeout svc sid vid e tr]
  show "vpcPeeringPolled svc sid vid e (Some timeout) (Some sl) tr \<noteq> None" by auto
next
  fix y assume "waitForDatabaseStatus svc sid did e (Some timeout) (Some sl) tr = Some y"
  from first_returns[where loop = "waitDatabaseLoop svc sid did e timeout sl", OF db_inducts db_weq this]
  show "\<exists>n. y = (svc_getDatabase svc (tr @ pollCalls (GetDatabase sid did) sl n),
                   tr @ pollCalls (GetDatabase sid did) sl n)" by blast
next
  assume "0 < sl"
  from first_terminates[where loop = "waitDatabaseLoop svc sid did e timeout sl" and tr = tr, OF db_eq db_weq this]
  show "waitForDatabaseStatus svc sid did e (Some timeout) (Some sl) tr \<noteq> None" by auto
next
  fix y assume "waitForCloudAccountStatus svc cid e (Some timeout) (Some sl) tr = Some y"
  from first_returns[where loop = "waitCloudAccountLoop svc cid e timeout sl", OF ca_inducts ca_weq this]
  show "\<exists>n. y = (svc_getCloudAccount svc (tr @ pollCalls (GetCloudAccount cid) sl n),
                   tr @ pollCalls (GetCloudAccount cid) sl n)" by blast
next
  assume "0 < sl"
  from first_terminates[where loop = "waitCloudAccountLoop svc cid e timeout sl" and tr = tr, OF ca_eq ca_weq this]
  show "waitForCloudAccountStatus svc cid e (Some timeout) (Some sl) tr \<noteq> None" by auto
next
  fix y assume "waitForTaskStatus svc tid e (Some timeout) (Some sl) tr = Some y"
  from first_returns[where loop = "taskWaitLoop svc tid e timeout sl", OF task_inducts task_weq this]
  show "\<exists>n. y = (svc_getTask svc (tr @ pollCalls (GetTask tid) sl n),
                   tr @ pollCalls (GetTask tid) sl n)" by blast
next
  assume "0 < sl"
  from first_terminates[where loop = "taskWaitLoop svc tid e timeout sl" and tr = tr, OF task_eq task_weq this]
  show "waitForTaskStatus svc tid e (Some timeout) (Some sl) tr \<noteq> None" by auto
qed

text \<open>\<^verbatim>\<open>waitForVpcPeeringStatus\<close> itself: the same log, and no value returned.\<close>

lemma vpc_helper_of_polled:
  assumes "vpcPeeringPolled svc sid vid e timeoutArg sleepTimeArg tr = Some (r, h)"
  shows "waitForVpcPeeringStatus svc sid vid e timeoutArg sleepTimeArg tr =
           Some (case r of Inl er \<Rightarrow> Inl er | Inr v \<Rightarrow> Inl (ReferenceError ''status''), h)"
  using assms by (simp add: waitForVpcPeeringStatus_def freeStatus_def split: sum.splits)

lemma vpc_helper_None:
  "vpcPeeringPolled svc sid vid e timeoutArg sleepTimeArg tr = None \<Longrightarrow>
   waitForVpcPeeringStatus svc sid vid e timeoutArg sleepTimeArg tr = None"
  by (simp add: waitForVpcPeeringStatus_def)

lemma vpc_helper_log:
  "map_option snd (waitForVpcPeeringStatus svc sid vid e timeoutArg sleepTimeArg tr) =
   map_option snd (vpcPeeringPolled svc sid vid e timeoutArg sleepTimeArg tr)"
  by (simp add: waitForVpcPeeringStatus_def freeStatus_def split: option.splits sum.splits)

section \<open>The claims\<close>

text \<open>
  C9. The defaults of the wait helpers: timeout 1200 seconds for a subscription
  and for a task, 300 seconds for a VPC peering, a database and a cloud account;
  interval 5 seconds for all five. An omitted argument behaves as that value.
\<close>

theorem wait_defaults:
  "waitForSubscriptionStatus svc subscriptionId expectedStatus timeoutArg sleepTimeArg tr =
     waitForSubscriptionStatus svc subscriptionId expectedStatus
       (Some (case timeoutArg of None \<Rightarrow> 1200 | Some t \<Rightarrow> t))
       (Some (case sleepTimeArg of None \<Rightarrow> 5 | Some s \<Rightarrow> s)) tr
   \<and> waitForVpcPeeringStatus svc subscriptionId vpcPeeringId expectedStatus timeoutArg sleepTimeArg tr =
     waitForVpcPeeringStatus svc subscriptionId vpcPeeringId expectedStatus
       (Some (case timeoutArg of None \<Rightarrow> 300 | Some t \<Rightarrow> t))
       (Some (case sleepTimeArg of None \<Rightarrow> 5 | Some s \<Rightarrow> s)) tr
   \<and> waitForDatabaseStatus svc subscriptionId databaseId expectedStatus timeoutArg sleepTimeArg tr =
     waitForDatabaseStatus svc subscriptionId databaseId expectedStatus
       (Some (case timeoutArg of None \<Rightarrow> 300 | Some t \<Rightarrow> t))
       (Some (case sleepTimeArg of None \<Rightarrow> 5 | Some s \<Rightarrow> s)) tr
   \<and> waitForCloudAccountStatus svc cloudAccountId expectedStatus timeoutArg sleepTimeArg tr =
     waitForCloudAccountStatus svc cloudAccountId expectedStatus
       (Some (case timeoutArg of None \<Rightarrow> 300 | Some t \<Rightarrow> t))
       (Some (case sleepTimeArg of None \<Rightarrow> 5 | Some s \<Rightarrow> s)) tr
   \<and> waitForTaskStatus svc taskId expectedStatus timeoutArg sleepTimeArg tr =
     waitForTaskStatus svc taskId expectedStatus
       (Some (case timeoutArg of None \<Rightarrow> 1200 | Some t \<Rightarrow> t))
       (Some (case sleepTimeArg of None \<Rightarrow> 5 | Some s \<Rightarrow> s)) tr"
  by (cases timeoutArg; cases sleepTimeArg)
     (simp_all add: waitForSubscriptionStatus_def waitForVpcPeeringStatus_def vpcPeeringPolled_def
        waitForDatabaseStatus_def waitForCloudAccountStatus_def waitForTaskStatus_def)


text \<open>
  C4. \<^verbatim>\<open>waitForVpcPeeringStatus\<close>, with an entry that has the expected status at
  the first fetch: the lookup finds the entry and nothing is fetched again, as
  the claim says, but the helper does not return it: the debug message of line
  357 throws. \<^verbatim>\<open>waitForSubscriptionStatus\<close> on the same answers returns the
  resource.
\<close>

theorem expected_status_rejected:
  "vpcPeeringPolled (scriptedService [active]) 1 1 (Str ''active'') (Some 300) (Some 5) [] =
     Some (Inr (Some \<lparr> vpc_id = 1, vpc_status = Some (Str ''active'') \<rparr>), [GetVpcPeerings 1])
   \<and> waitForVpcPeeringStatus (scriptedService [active]) 1 1 (Str ''active'') (Some 300) (Some 5) [] =
     Some (Inl (ReferenceError ''status''), [GetVpcPeerings 1])
   \<and> waitForSubscriptionStatus (scriptedService [active]) 1 (Str ''active'') (Some 300) (Some 5) [] =
     Some (Inr \<lparr> sub_id = 1, sub_status = Some (Str ''active'') \<rparr>, [GetSubscription 1])"
  by code_simp

text \<open>
  C3. \<^verbatim>\<open>waitForVpcPeeringStatus\<close>, with an entry that is \<^verbatim>\<open>creating\<close> at the
  first fetch and \<^verbatim>\<open>failed\<close> at the second: the loop stops there, with time
  left, as the claim says, but the helper does not return the entry: the debug
  message of line 357 throws. \<^verbatim>\<open>waitForSubscriptionStatus\<close> with \<^verbatim>\<open>error\<close> at
  the second fetch returns the resource.
\<close>

theorem sentinel_rejected:
  "vpcPeeringPolled (scriptedService [creating, failed]) 1 1 (Str ''active'') (Some 300) (Some 5) [] =
     Some (Inr (Some \<lparr> vpc_id = 1, vpc_status = Some (Str ''failed'') \<rparr>),
           [GetVpcPeerings 1, Sleep 5, GetVpcPeerings 1])
   \<and> waitForVpcPeeringStatus (scriptedService [creating, failed]) 1 1 (Str ''active'') (Some 300) (Some 5) [] =
     Some (Inl (ReferenceError ''status''), [GetVpcPeerings 1, Sleep 5, GetVpcPeerings 1])
   \<and> waitForSubscriptionStatus (scriptedService [creating, failing]) 1 (Str ''active'') (Some 300) (Some 5) [] =
     Some (Inr \<lparr> sub_id = 1, sub_status = Some (Str ''error'') \<rparr>,
           [GetSubscription 1, Sleep 5, GetSubscription 1])"
  by code_simp

text \<open>
  C6. \<^verbatim>\<open>waitForVpcPeeringStatus\<close>, timeout 10 and interval 5, with an entry
  that stays \<^verbatim>\<open>creating\<close>: the loop ends on the elapsed time after the fourth
  fetch, and the helper then raises a failure instead of resolving with the
  entry: the debug message of line 357 throws. \<^verbatim>\<open>waitForSubscriptionStatus\<close>
  on the same answers resolves with the last resource.
\<close>

theorem timeout_rejected:
  "vpcPeeringPolled (scriptedService [creating]) 1 1 (Str ''active'') (Some 10) (Some 5) [] =
     Some (Inr (Some \<lparr> vpc_id = 1, vpc_status = Some (Str ''creating'') \<rparr>),
           [GetVpcPeerings 1, Sleep 5, GetVpcPeerings 1, Sleep 5, GetVpcPeerings 1,
            Sleep 5, GetVpcPeerings 1])
   \<and> waitForVpcPeeringStatus (scriptedService [creating]) 1 1 (Str ''active'') (Some 10) (Some 5) [] =
     Some (Inl (ReferenceError ''status''),
           [GetVpcPeerings 1, Sleep 5, GetVpcPeerings 1, Sleep 5, GetVpcPeerings 1,
            Sleep 5, GetVpcPeerings 1])
   \<and> waitForSubscriptionStatus (scriptedService [creating]) 1 (Str ''active'') (Some 10) (Some 5) [] =
     Some (Inr \<lparr> sub_id = 1, sub_status = Some (Str ''creating'') \<rparr>,
           [GetSubscription 1, Sleep 5, GetSubscription 1, Sleep 5, GetSubscription 1,
            Sleep 5, GetSubscription 1])"
  by code_simp

text \<open>
  C1. The claim gives \<open>floor (timeout / interval) + 1\<close> fetches, three for timeout
  10 and interval 5. The guard is tested before the sleep, so the loop is entered
  once more at elapsed time 10 and fetches a fourth time at 15.
\<close>

theorem fetches_until_timeout_counterexample:
  "waitForSubscriptionStatus (scriptedService [creating]) 1 (Str ''active'') (Some 10) (Some 5) [] =
     Some (Inr \<lparr> sub_id = 1, sub_status = Some (Str ''creating'') \<rparr>,
           [GetSubscription 1, Sleep 5, GetSubscription 1, Sleep 5, GetSubscription 1,
            Sleep 5, GetSubscription 1])
   \<and> fetches [GetSubscription 1, Sleep 5, GetSubscription 1, Sleep 5, GetSubscription 1,
            Sleep 5, GetSubscription 1] = 4
   \<and> elapsed [GetSubscription 1, Sleep 5, GetSubscription 1, Sleep 5, GetSubscription 1,
            Sleep 5, GetSubscription 1] = 15
   \<and> nat (10 div 5) + 1 = (3 :: nat)"
  by code_simp

text \<open>
  C1, as amended. With a positive interval and a non-negative timeout, if every
  fetch answers with a resource whose status is defined and is neither the
  expected status nor the sentinel, \<^verbatim>\<open>waitForSubscriptionStatus\<close>,
  \<^verbatim>\<open>waitForDatabaseStatus\<close> and \<^verbatim>\<open>waitForCloudAccountStatus\<close> return the
  resource of their last fetch, and their log is
  \<open>floor (timeout / interval) + 2\<close> fetches separated by sleeps. The log of
  \<^verbatim>\<open>waitForVpcPeeringStatus\<close> is the same, with \<^verbatim>\<open>getVpcPeerings\<close> as the fetch.
\<close>

theorem fetches_until_timeout:
  assumes "0 < sl" and "0 \<le> timeout"
  shows
   "((\<forall>h. pendingAnswer e sub_status (svc_getSubscription svc h)) \<longrightarrow>
       waitForSubscriptionStatus svc sid e (Some timeout) (Some sl) tr =
         Some (svc_getSubscription svc (tr @ pollCalls (GetSubscription sid) sl (nat (timeout div sl) + 1)),
               tr @ pollCalls (GetSubscription sid) sl (nat (timeout div sl) + 1)))
    \<and> ((\<forall>h. vpcFoundPending e vid (svc_getVpcPeerings svc h)) \<longrightarrow>
       map_option snd (waitForVpcPeeringStatus svc sid vid e (Some timeout) (Some sl) tr) =
         Some (tr @ pollCalls (GetVpcPeerings sid) sl (nat (timeout div sl) + 1)))
    \<and> ((\<forall>h. pendingAnswer e db_status (svc_getDatabase svc h)) \<longrightarrow>
       waitForDatabaseStatus svc sid did e (Some timeout) (Some sl) tr =
         Some (svc_getDatabase svc (tr @ pollCalls (GetDatabase sid did) sl (nat (timeout div sl) + 1)),
               tr @ pollCalls (GetDatabase sid did) sl (nat (timeout div sl) + 1)))
    \<and> ((\<forall>h. pendingAnswer e ca_status (svc_getCloudAccount svc h)) \<longrightarrow>
       waitForCloudAccountStatus svc cid e (Some timeout) (Some sl) tr =
         Some (svc_getCloudAccount svc (tr @ pollCalls (GetCloudAccount cid) sl (nat (timeout div sl) + 1)),
               tr @ pollCalls (GetCloudAccount cid) sl (nat (timeout div sl) + 1)))
    \<and> (isFetch g \<longrightarrow>
       fetches (pollCalls g sl (nat (timeout div sl) + 1)) = nat (timeout div sl) + 2)"
proof (intro conjI impI)
  assume "\<forall>h. pendingAnswer e sub_status (svc_getSubscription svc h)"
  then show "waitForSubscriptionStatus svc sid e (Some timeout) (Some sl) tr =
         Some (svc_getSubscription svc (tr @ pollCalls (GetSubscription sid) sl (nat (timeout div sl) + 1)),
               tr @ pollCalls (GetSubscription sid) sl (nat (timeout div sl) + 1))"
    by (intro pending_run[where loop = "waitSubscriptionLoop svc sid e timeout sl", OF sub_eq sub_weq assms]) simp
next
  assume "\<forall>h. pendingAnswer e db_status (svc_getDatabase svc h)"
  then show "waitForDatabaseStatus svc sid did e (Some timeout) (Some sl) tr =
         Some (svc_getDatabase svc (tr @ pollCalls (GetDatabase sid did) sl (nat (timeout div sl) + 1)),
               tr @ pollCalls (GetDatabase sid did) sl (nat (timeout div sl) + 1))"
    by (intro pending_run[where loop = "waitDatabaseLoop svc sid did e timeout sl", OF db_eq db_weq assms]) simp
next
  assume "\<forall>h. pendingAnswer e ca_status (svc_getCloudAccount svc h)"
  then show "waitForCloudAccountStatus svc cid e (Some timeout) (Some sl) tr =
         Some (svc_getCloudAccount svc (tr @ pollCalls (GetCloudAccount cid) sl (nat (timeout div sl) + 1)),
               tr @ pollCalls (GetCloudAccount cid) sl (nat (timeout div sl) + 1))"
    by (intro pending_run[where loop = "waitCloudAccountLoop svc cid e timeout sl", OF ca_eq ca_weq assms]) simp
next
  assume "isFetch g"
  then show "fetches (pollCalls g sl (nat (timeout div sl) + 1)) = nat (timeout div sl) + 2"
    by (simp add: fetches_pollCalls)
next
  let ?g = "GetVpcPeerings sid"
  assume all: "\<forall>h. vpcFoundPending e vid (svc_getVpcPeerings svc h)"
  then have "vpcFoundPending e vid (svc_getVpcPeerings svc (tr @ [?g]))" by simp
  then obtain p where p: "vpcLookup vid (svc_getVpcPeerings svc (tr @ [?g])) = Inr (Some p)"
    and pp: "statusPending e ''failed'' (vpc_status p)"
    by (auto simp add: vpcFoundPending_def split: sum.splits option.splits)
  have "waitVpcPeeringLoop svc sid vid e timeout sl (Some p) (vpc_status p) 0 (tr @ [?g]) =
     Some (vpcLookup vid (svc_getVpcPeerings svc ((tr @ [?g]) @ rounds ?g sl (budget timeout sl 0))),
           (tr @ [?g]) @ rounds ?g sl (budget timeout sl 0))"
    by (rule vpc_quiet_timeout[OF assms pp]) (use all in simp)
  with p assms(2) have "vpcPeeringPolled svc sid vid e (Some timeout) (Some sl) tr =
         Some (vpcLookup vid (svc_getVpcPeerings svc (tr @ pollCalls ?g sl (nat (timeout div sl) + 1))),
               tr @ pollCalls ?g sl (nat (timeout div sl) + 1))"
    by (simp add: vpc_weq budget_0 pollCalls_def)
  then show "map_option snd (waitForVpcPeeringStatus svc sid vid e (Some timeout) (Some sl) tr) =
         Some (tr @ pollCalls ?g sl (nat (timeout div sl) + 1))"
    by (simp add: vpc_helper_log)
qed

theorem fetches_until_timeout_witness:
  "(0 :: int) < 5 \<and> (0 :: int) \<le> 10
   \<and> (\<forall>h. pendingAnswer (Str ''active'') sub_status (svc_getSubscription (scriptedService [creating]) h))
   \<and> (\<forall>h. vpcFoundPending (Str ''active'') 1 (svc_getVpcPeerings (scriptedService [creating]) h))
   \<and> (\<forall>h. pendingAnswer (Str ''active'') db_status (svc_getDatabase (scriptedService [creating]) h))
   \<and> (\<forall>h. pendingAnswer (Str ''active'') ca_status (svc_getCloudAccount (scriptedService [creating]) h))
   \<and> isFetch (GetSubscription 1)
   \<and> waitForSubscriptionStatus (scriptedService [creating]) 1 (Str ''active'') (Some 10) (Some 5) [] =
       Some (Inr \<lparr> sub_id = 1, sub_status = Some (Str ''creating'') \<rparr>, pollCalls (GetSubscription 1) 5 3)
   \<and> map_option snd
         (waitForVpcPeeringStatus (scriptedService [creating]) 1 1 (Str ''active'') (Some 10) (Some 5) []) =
       Some (pollCalls (GetVpcPeerings 1) 5 3)
   \<and> waitForDatabaseStatus (scriptedService [creating]) 1 1 (Str ''active'') (Some 10) (Some 5) [] =
       Some (Inr \<lparr> db_databaseId = 1, db_status = Some (Str ''creating'') \<rparr>, pollCalls (GetDatabase 1 1) 5 3)
   \<and> waitForCloudAccountStatus (scriptedService [creating]) 1 (Str ''active'') (Some 10) (Some 5) [] =
       Some (Inr \<lparr> ca_id = 1, ca_status = Some (Str ''creating'') \<rparr>, pollCalls (GetCloudAccount 1) 5 3)
   \<and> fetches (pollCalls (GetSubscription 1) 5 3) = 4"
proof -
  have h: "(0 :: int) < 5" "(0 :: int) \<le> 10" by simp_all
  have st: "\<And>h. scriptedStatus [creating] h = Some (Str ''creating'')"
    by (simp add: scriptedStatus_def creating_def)
  have n: "nat ((10 :: int) div 5) + 1 = 3" by simp
  show ?thesis
    using fetches_until_timeout[OF h, of "Str ''active''" "scriptedService [creating]" 1 "[]" 1 1 1
        "GetSubscription 1"]
    unfolding n
    by (simp add: scriptedService_def st pendingAnswer_def vpcFoundPending_def vpcLookup_def
          statusPending_def)
qed

text \<open>
  C2. The claim lets the loop exit as soon as the id is missing from a fetched
  list, with time left. Here the id is missing from the second list only, at
  elapsed time 5 of 10: the loop goes on with the status of the first fetch and
  fetches a third time.
\<close>

theorem vanished_peering_counterexample:
  "vpcLookup 1 (svc_getVpcPeerings (vpcScriptedService [[peering pending], [], [peering active]])
       [GetVpcPeerings 1, Sleep 5, GetVpcPeerings 1]) = Inr None
   \<and> map_option snd
         (waitForVpcPeeringStatus (vpcScriptedService [[peering pending], [], [peering active]])
            1 1 (Str ''active'') (Some 10) (Some 5) []) =
       Some [GetVpcPeerings 1, Sleep 5, GetVpcPeerings 1, Sleep 5, GetVpcPeerings 1]"
  by code_simp

text \<open>
  C2, as amended, on the calls the helper issues. An id missing from the first
  list ends the helper after that single fetch. An id missing from a later list
  does not end the loop: \<^verbatim>\<open>status\<close> keeps its value and the next iteration runs
  with it. In particular, if the entry was found with a pending status at the
  first fetch and is missing from every later list, the helper goes on fetching
  until the timeout has elapsed, \<open>floor (timeout / interval) + 2\<close> fetches in
  all (positive interval, non-negative timeout).
\<close>

theorem vanished_peering:
  "(vpcLookup vid (svc_getVpcPeerings svc (tr @ [GetVpcPeerings sid])) = Inr None \<longrightarrow>
      map_option snd (waitForVpcPeeringStatus svc sid vid e timeoutArg sleepTimeArg tr) =
        Some (tr @ [GetVpcPeerings sid]))
   \<and> (statusPending e ''failed'' st \<and> t \<le> timeout
       \<and> vpcLookup vid (svc_getVpcPeerings svc (h @ [Sleep sl, GetVpcPeerings sid])) = Inr None \<longrightarrow>
      waitVpcPeeringLoop svc sid vid e timeout sl vp st t h =
        waitVpcPeeringLoop svc sid vid e timeout sl None st (t + sl) (h @ [Sleep sl, GetVpcPeerings sid]))
   \<and> (0 < sl \<and> 0 \<le> timeout
       \<and> vpcFoundPending e vid (svc_getVpcPeerings svc (tr @ [GetVpcPeerings sid]))
       \<and> (\<forall>j. vpcLookup vid (svc_getVpcPeerings svc (tr @ pollCalls (GetVpcPeerings sid) sl (Suc j))) = Inr None) \<longrightarrow>
      map_option snd (waitForVpcPeeringStatus svc sid vid e (Some timeout) (Some sl) tr) =
        Some (tr @ pollCalls (GetVpcPeerings sid) sl (nat (timeout div sl) + 1)))"
proof (intro conjI impI)
  assume "vpcLookup vid (svc_getVpcPeerings svc (tr @ [GetVpcPeerings sid])) = Inr None"
  then have "vpcPeeringPolled svc sid vid e timeoutArg sleepTimeArg tr =
        Some (Inr None, tr @ [GetVpcPeerings sid])"
    by (auto simp add: vpcPeeringPolled_def getVpcPeerings_def vpcLookup_def Let_def
          split: sum.splits option.splits)
  then show "map_option snd (waitForVpcPeeringStatus svc sid vid e timeoutArg sleepTimeArg tr) =
        Some (tr @ [GetVpcPeerings sid])"
    by (simp add: vpc_helper_log)
next
  assume "statusPending e ''failed'' st \<and> t \<le> timeout
       \<and> vpcLookup vid (svc_getVpcPeerings svc (h @ [Sleep sl, GetVpcPeerings sid])) = Inr None"
  then show "waitVpcPeeringLoop svc sid vid e timeout sl vp st t h =
        waitVpcPeeringLoop svc sid vid e timeout sl None st (t + sl) (h @ [Sleep sl, GetVpcPeerings sid])"
    by (subst waitVpcPeeringLoop.simps)
       (auto simp add: statusPending_def getVpcPeerings_def sleep_def vpcLookup_def Let_def
          split: sum.splits option.splits)
next
  let ?g = "GetVpcPeerings sid"
  assume a: "0 < sl \<and> 0 \<le> timeout
       \<and> vpcFoundPending e vid (svc_getVpcPeerings svc (tr @ [?g]))
       \<and> (\<forall>j. vpcLookup vid (svc_getVpcPeerings svc (tr @ pollCalls ?g sl (Suc j))) = Inr None)"
  then have pos: "0 < sl" and t0: "0 \<le> timeout" by simp_all
  from a obtain p where p: "vpcLookup vid (svc_getVpcPeerings svc (tr @ [?g])) = Inr (Some p)"
    and pp: "statusPending e ''failed'' (vpc_status p)"
    by (auto simp add: vpcFoundPending_def split: sum.splits option.splits)
  have gone: "\<And>j. 0 < j \<Longrightarrow> vpcLookup vid (svc_getVpcPeerings svc ((tr @ [?g]) @ rounds ?g sl j)) = Inr None"
  proof -
    fix j :: nat assume "0 < j"
    then obtain k where "j = Suc k" by (cases j) auto
    with a show "vpcLookup vid (svc_getVpcPeerings svc ((tr @ [?g]) @ rounds ?g sl j)) = Inr None"
      by (simp add: pollCalls_def)
  qed
  have "waitVpcPeeringLoop svc sid vid e timeout sl (Some p) (vpc_status p) 0 (tr @ [?g]) =
     Some (vpcLookup vid (svc_getVpcPeerings svc ((tr @ [?g]) @ rounds ?g sl (budget timeout sl 0))),
           (tr @ [?g]) @ rounds ?g sl (budget timeout sl 0))"
    by (rule vpc_quiet_timeout[OF pos t0 pp]) (use gone in blast)
  moreover have "0 < budget timeout sl 0" using t0 by (simp add: budget_def)
  ultimately have "vpcPeeringPolled svc sid vid e (Some timeout) (Some sl) tr =
        Some (Inr None, tr @ pollCalls ?g sl (nat (timeout div sl) + 1))"
    using p t0 gone[of "budget timeout sl 0"] by (simp add: vpc_weq budget_0 pollCalls_def)
  then show "map_option snd (waitForVpcPeeringStatus svc sid vid e (Some timeout) (Some sl) tr) =
        Some (tr @ pollCalls ?g sl (nat (timeout div sl) + 1))"
    by (simp add: vpc_helper_log)
qed

theorem vanished_peering_witness:
  "vpcLookup 1 (svc_getVpcPeerings (vpcScriptedService [[]]) ([] @ [GetVpcPeerings 1])) = Inr None
   \<and> map_option snd (waitForVpcPeeringStatus (vpcScriptedService [[]]) 1 1 (Str ''active'') None None []) =
        Some [GetVpcPeerings 1]
   \<and> statusPending (Str ''active'') ''failed'' pending \<and> (5 :: int) \<le> 10
   \<and> vpcLookup 1 (svc_getVpcPeerings (vpcScriptedService [[peering pending], []])
        ([GetVpcPeerings 1, Sleep 5, GetVpcPeerings 1] @ [Sleep 5, GetVpcPeerings 1])) = Inr None
   \<and> waitVpcPeeringLoop (vpcScriptedService [[peering pending], []]) 1 1 (Str ''active'') 10 5
        None pending 5 [GetVpcPeerings 1, Sleep 5, GetVpcPeerings 1] =
      waitVpcPeeringLoop (vpcScriptedService [[peering pending], []]) 1 1 (Str ''active'') 10 5
        None pending 10 [GetVpcPeerings 1, Sleep 5, GetVpcPeerings 1, Sleep 5, GetVpcPeerings 1]
   \<and> (0 :: int) < 5 \<and> (0 :: int) \<le> 10
   \<and> vpcFoundPending (Str ''active'') 1
        (svc_getVpcPeerings (vpcScriptedService [[peering pending], []]) ([] @ [GetVpcPeerings 1]))
   \<and> (\<forall>j. vpcLookup 1 (svc_getVpcPeerings (vpcScriptedService [[peering pending], []])
             ([] @ pollCalls (GetVpcPeerings 1) 5 (Suc j))) = Inr None)
   \<and> map_option snd (waitForVpcPeeringStatus (vpcScriptedService [[peering pending], []]) 1 1
        (Str ''active'') (Some 10) (Some 5) []) =
        Some (pollCalls (GetVpcPeerings 1) 5 3)"
proof -
  have n: "nat ((10 :: int) div 5) + 1 = 3" by simp
  have f: "\<And>j. fetches (pollCalls (GetVpcPeerings 1) 5 (Suc j)) = Suc (Suc j)"
    by (simp add: fetches_pollCalls)
  have a1: "vpcLookup 1 (svc_getVpcPeerings (vpcScriptedService [[]]) ([] @ [GetVpcPeerings 1])) = Inr None"
    by (simp add: vpcScriptedService_def vpcLookup_def)
  have a2: "statusPending (Str ''active'') ''failed'' pending \<and> (5 :: int) \<le> 10
     \<and> vpcLookup 1 (svc_getVpcPeerings (vpcScriptedService [[peering pending], []])
        ([GetVpcPeerings 1, Sleep 5, GetVpcPeerings 1] @ [Sleep 5, GetVpcPeerings 1])) = Inr None"
    by (simp add: vpcScriptedService_def vpcLookup_def statusPending_def pending_def fetches_def)
  have a3: "(0 :: int) < 5 \<and> (0 :: int) \<le> 10
     \<and> vpcFoundPending (Str ''active'') 1
        (svc_getVpcPeerings (vpcScriptedService [[peering pending], []]) ([] @ [GetVpcPeerings 1]))
     \<and> (\<forall>j. vpcLookup 1 (svc_getVpcPeerings (vpcScriptedService [[peering pending], []])
             ([] @ pollCalls (GetVpcPeerings 1) 5 (Suc j))) = Inr None)"
    by (simp add: vpcScriptedService_def vpcLookup_def vpcFoundPending_def statusPending_def
          pending_def peering_def fetches_def f[unfolded fetches_def])
  from vanished_peering[of 1 "vpcScriptedService [[]]" "[]" 1 "Str ''active''" None None]
  have c1: "map_option snd (waitForVpcPeeringStatus (vpcScriptedService [[]]) 1 1 (Str ''active'') None None []) =
        Some [GetVpcPeerings 1]"
    using a1 by simp
  from vanished_peering[of 1 "vpcScriptedService [[peering pending], []]" _ 1 "Str ''active''" _ _
      pending 5 10 "[GetVpcPeerings 1, Sleep 5, GetVpcPeerings 1]" 5 None]
  have c2: "waitVpcPeeringLoop (vpcScriptedService [[peering pending], []]) 1 1 (Str ''active'') 10 5
        None pending 5 [GetVpcPeerings 1, Sleep 5, GetVpcPeerings 1] =
      waitVpcPeeringLoop (vpcScriptedService [[peering pending], []]) 1 1 (Str ''active'') 10 5
        None pending 10 [GetVpcPeerings 1, Sleep 5, GetVpcPeerings 1, Sleep 5, GetVpcPeerings 1]"
    using a2 by simp
  from vanished_peering[of 1 "vpcScriptedService [[peering pending], []]" "[]" 1 "Str ''active''" _ _
      _ _ 10 _ 5]
  have c3: "map_option snd (waitForVpcPeeringStatus (vpcScriptedService [[peering pending], []]) 1 1
        (Str ''active'') (Some 10) (Some 5) []) = Some (pollCalls (GetVpcPeerings 1) 5 3)"
    using a3 unfolding n by simp
  from a1 a2 a3 c1 c2 c3 show ?thesis by simp
qed

text \<open>
  C10. The claim has no condition on the timeout. With a negative timeout the
  guard fails at elapsed time 0: the helper fetches once, which is more than
  \<open>floor (-10 / 5) + 2 = 0\<close> fetches, and with interval 0 it returns although
  the status stays pending.
\<close>

theorem polling_bound_counterexample:
  "waitForSubscriptionStatus (scriptedService [creating]) 1 (Str ''active'') (Some (- 10)) (Some 5) [] =
     Some (Inr \<lparr> sub_id = 1, sub_status = Some (Str ''creating'') \<rparr>, [GetSubscription 1])
   \<and> int (fetches [GetSubscription 1]) = 1
   \<and> (- 10 :: int) div 5 + 2 = 0
   \<and> waitForSubscriptionStatus (scriptedService [creating]) 1 (Str ''active'') (Some (- 1)) (Some 0) [] =
     Some (Inr \<lparr> sub_id = 1, sub_status = Some (Str ''creating'') \<rparr>, [GetSubscription 1])"
  by code_simp

text \<open>
  C10, as amended. For a non-negative timeout and each of the four helpers
  whose loop is in \<^verbatim>\<open>api.ts\<close>: with a positive interval the helper returns,
  whatever the fetches answer, and its log holds at most
  \<open>floor (timeout / interval) + 2\<close> fetches; with interval 0, if every fetch
  answers with a status that is defined and is neither the expected one nor the
  sentinel, the helper never returns.
\<close>

theorem polling_bound:
  assumes "0 \<le> timeout"
  shows
   "(0 < sl \<longrightarrow> (\<exists>r n. waitForSubscriptionStatus svc sid e (Some timeout) (Some sl) tr =
                           Some (r, tr @ pollCalls (GetSubscription sid) sl n)
                       \<and> int (fetches (pollCalls (GetSubscription sid) sl n)) \<le> timeout div sl + 2))
    \<and> ((\<forall>h. pendingAnswer e sub_status (svc_getSubscription svc h)) \<longrightarrow>
         waitForSubscriptionStatus svc sid e (Some timeout) (Some 0) tr = None)
    \<and> (0 < sl \<longrightarrow> (\<exists>r n. waitForVpcPeeringStatus svc sid vid e (Some timeout) (Some sl) tr =
                           Some (r, tr @ pollCalls (GetVpcPeerings sid) sl n)
                       \<and> int (fetches (pollCalls (GetVpcPeerings sid) sl n)) \<le> timeout div sl + 2))
    \<and> ((\<forall>h. vpcFoundPending e vid (svc_getVpcPeerings svc h)) \<longrightarrow>
         waitForVpcPeeringStatus svc sid vid e (Some timeout) (Some 0) tr = None)
    \<and> (0 < sl \<longrightarrow> (\<exists>r n. waitForDatabaseStatus svc sid did e (Some timeout) (Some sl) tr =
                           Some (r, tr @ pollCalls (GetDatabase sid did) sl n)
                       \<and> int (fetches (pollCalls (GetDatabase sid did) sl n)) \<le> timeout div sl + 2))
    \<and> ((\<forall>h. pendingAnswer e db_status (svc_getDatabase svc h)) \<longrightarrow>
         waitForDatabaseStatus svc sid did e (Some timeout) (Some 0) tr = None)
    \<and> (0 < sl \<longrightarrow> (\<exists>r n. waitForCloudAccountStatus svc cid e (Some timeout) (Some sl) tr =
                           Some (r, tr @ pollCalls (GetCloudAccount cid) sl n)
                       \<and> int (fetches (pollCalls (GetCloudAccount cid) sl n)) \<le> timeout div sl + 2))
    \<and> ((\<forall>h. pendingAnswer e ca_status (svc_getCloudAccount svc h)) \<longrightarrow>
         waitForCloudAccountStatus svc cid e (Some timeout) (Some 0) tr = None)"
proof (intro conjI impI)
  assume "0 < sl"
  from bounded_wait[where loop = "waitSubscriptionLoop svc sid e timeout sl" and tr = tr,
      OF sub_eq sub_weq this assms]
  show "\<exists>r n. waitForSubscriptionStatus svc sid e (Some timeout) (Some sl) tr =
                           Some (r, tr @ pollCalls (GetSubscription sid) sl n)
                       \<and> int (fetches (pollCalls (GetSubscription sid) sl n)) \<le> timeout div sl + 2"
    by (auto simp add: fetches_pollCalls)
next
  assume "\<forall>h. pendingAnswer e sub_status (svc_getSubscription svc h)"
  with assms show "waitForSubscriptionStatus svc sid e (Some timeout) (Some 0) tr = None"
    by (intro never_returns[where loop = "waitSubscriptionLoop svc sid e timeout 0"
          and statusOf = sub_status, OF sub_inducts sub_weq])
next
  assume "0 < sl"
  from vpc_first_terminates[OF this, of timeout svc sid vid e tr]
  obtain n where n0: "n \<le> budget timeout sl 0"
    "vpcPeeringPolled svc sid vid e (Some timeout) (Some sl) tr =
       Some (vpcLookup vid (svc_getVpcPeerings svc (tr @ pollCalls (GetVpcPeerings sid) sl n)),
             tr @ pollCalls (GetVpcPeerings sid) sl n)" by blast
  note n = n0(1) vpc_helper_of_polled[OF n0(2)]
  from \<open>0 < sl\<close> assms have "0 \<le> timeout div sl" by (simp add: pos_imp_zdiv_nonneg_iff)
  with n(1) assms have "int (fetches (pollCalls (GetVpcPeerings sid) sl n)) \<le> timeout div sl + 2"
    by (simp add: budget_0 fetches_pollCalls)
  with n(2) show "\<exists>r n. waitForVpcPeeringStatus svc sid vid e (Some timeout) (Some sl) tr =
                           Some (r, tr @ pollCalls (GetVpcPeerings sid) sl n)
                       \<and> int (fetches (pollCalls (GetVpcPeerings sid) sl n)) \<le> timeout div sl + 2"
    by blast
next
  assume "\<forall>h. vpcFoundPending e vid (svc_getVpcPeerings svc h)"
  with assms show "waitForVpcPeeringStatus svc sid vid e (Some timeout) (Some 0) tr = None"
    by (intro vpc_helper_None vpc_never_returns)
next
  assume "0 < sl"
  from bounded_wait[where loop = "waitDatabaseLoop svc sid did e timeout sl" and tr = tr,
      OF db_eq db_weq this assms]
  show "\<exists>r n. waitForDatabaseStatus svc sid did e (Some timeout) (Some sl) tr =
                           Some (r, tr @ pollCalls (GetDatabase sid did) sl n)
                       \<and> int (fetches (pollCalls (GetDatabase sid did) sl n)) \<le> timeout div sl + 2"
    by (auto simp add: fetches_pollCalls)
next
  assume "\<forall>h. pendingAnswer e db_status (svc_getDatabase svc h)"
  with assms show "waitForDatabaseStatus svc sid did e (Some timeout) (Some 0) tr = None"
    by (intro never_returns[where loop = "waitDatabaseLoop svc sid did e timeout 0"
          and statusOf = db_status, OF db_inducts db_weq])
next
  assume "0 < sl"
  from bounded_wait[where loop = "waitCloudAccountLoop svc cid e timeout sl" and tr = tr,
      OF ca_eq ca_weq this assms]
  show "\<exists>r n. waitForCloudAccountStatus svc cid e (Some timeout) (Some sl) tr =
                           Some (r, tr @ pollCalls (GetCloudAccount cid) sl n)
                       \<and> int (fetches (pollCalls (GetCloudAccount cid) sl n)) \<le> timeout div sl + 2"
    by (auto simp add: fetches_pollCalls)
next
  assume "\<forall>h. pendingAnswer e ca_status (svc_getCloudAccount svc h)"
  with assms show "waitForCloudAccountStatus svc cid e (Some timeout) (Some 0) tr = None"
    by (intro never_returns[where loop = "waitCloudAccountLoop svc cid e timeout 0"
          and statusOf = ca_status, OF ca_inducts ca_weq])
qed

theorem polling_bound_witness:
  "(0 :: int) \<le> 10 \<and> (0 :: int) < 5
   \<and> (\<forall>h. pendingAnswer (Str ''active'') sub_status (svc_getSubscription (scriptedService [creating]) h))
   \<and> (\<forall>h. vpcFoundPending (Str ''active'') 1 (svc_getVpcPeerings (scriptedService [creating]) h))
   \<and> (\<forall>h. pendingAnswer (Str ''active'') db_status (svc_getDatabase (scriptedService [creating]) h))
   \<and> (\<forall>h. pendingAnswer (Str ''active'') ca_status (svc_getCloudAccount (scriptedService [creating]) h))
   \<and> (\<exists>r n. waitForSubscriptionStatus (scriptedService [creating]) 1 (Str ''active'') (Some 10) (Some 5) [] =
               Some (r, [] @ pollCalls (GetSubscription 1) 5 n)
             \<and> int (fetches (pollCalls (GetSubscription 1) 5 n)) \<le> 10 div 5 + 2)
   \<and> waitForSubscriptionStatus (scriptedService [creating]) 1 (Str ''active'') (Some 10) (Some 0) [] = None
   \<and> waitForVpcPeeringStatus (scriptedService [creating]) 1 1 (Str ''active'') (Some 10) (Some 0) [] = None
   \<and> waitForDatabaseStatus (scriptedService [creating]) 1 1 (Str ''active'') (Some 10) (Some 0) [] = None
   \<and> waitForCloudAccountStatus (scriptedService [creating]) 1 (Str ''active'') (Some 10) (Some 0) [] = None"
proof -
  have h: "(0 :: int) \<le> 10" by simp
  have st: "\<And>h. scriptedStatus [creating] h = Some (Str ''creating'')"
    by (simp add: scriptedStatus_def creating_def)
  have hyps: "(\<forall>h. pendingAnswer (Str ''active'') sub_status (svc_getSubscription (scriptedService [creating]) h))
   \<and> (\<forall>h. vpcFoundPending (Str ''active'') 1 (svc_getVpcPeerings (scriptedService [creating]) h))
   \<and> (\<forall>h. pendingAnswer (Str ''active'') db_status (svc_getDatabase (scriptedService [creating]) h))
   \<and> (\<forall>h. pendingAnswer (Str ''active'') ca_status (svc_getCloudAccount (scriptedService [creating]) h))"
    by (simp add: scriptedService_def st pendingAnswer_def vpcFoundPending_def vpcLookup_def
          statusPending_def)
  from polling_bound[OF h, of 5 "scriptedService [creating]" 1 "Str ''active''" "[]" 1 1 1] hyps
  show ?thesis by simp
qed

text \<open>
  C8. The sentinel is the literal \<^verbatim>\<open>failed\<close> in the VPC-peering loop and the
  literal \<^verbatim>\<open>error\<close> in the subscription, database and cloud-account loops. On
  its own sentinel a loop returns at once, with the log unchanged; on the other
  literal (different from the expected status, elapsed time within the timeout)
  it does not: whatever it returns, its log has grown by at least one sleep and
  one fetch.
\<close>

theorem sentinel_literals:
  "waitVpcPeeringLoop svc sid vid e timeout sl vp (Some (Str ''failed'')) t h = Some (Inr vp, h)
   \<and> (e \<noteq> Str ''error'' \<and> t \<le> timeout \<longrightarrow>
        (\<forall>y. waitVpcPeeringLoop svc sid vid e timeout sl vp (Some (Str ''error'')) t h = Some y \<longrightarrow>
             (\<exists>n. snd y = h @ rounds (GetVpcPeerings sid) sl (Suc n))))
   \<and> (sub_status subscription = Some (Str ''error'') \<longrightarrow>
        waitSubscriptionLoop svc sid e timeout sl subscription t h = Some (Inr subscription, h))
   \<and> (sub_status subscription = Some (Str ''failed'') \<and> e \<noteq> Str ''failed'' \<and> t \<le> timeout \<longrightarrow>
        (\<forall>y. waitSubscriptionLoop svc sid e timeout sl subscription t h = Some y \<longrightarrow>
             (\<exists>n. snd y = h @ rounds (GetSubscription sid) sl (Suc n))))
   \<and> (db_status database = Some (Str ''error'') \<longrightarrow>
        waitDatabaseLoop svc sid did e timeout sl database t h = Some (Inr database, h))
   \<and> (db_status database = Some (Str ''failed'') \<and> e \<noteq> Str ''failed'' \<and> t \<le> timeout \<longrightarrow>
        (\<forall>y. waitDatabaseLoop svc sid did e timeout sl database t h = Some y \<longrightarrow>
             (\<exists>n. snd y = h @ rounds (GetDatabase sid did) sl (Suc n))))
   \<and> (ca_status cloudAccount = Some (Str ''error'') \<longrightarrow>
        waitCloudAccountLoop svc cid e timeout sl cloudAccount t h = Some (Inr cloudAccount, h))
   \<and> (ca_status cloudAccount = Some (Str ''failed'') \<and> e \<noteq> Str ''failed'' \<and> t \<le> timeout \<longrightarrow>
        (\<forall>y. waitCloudAccountLoop svc cid e timeout sl cloudAccount t h = Some y \<longrightarrow>
             (\<exists>n. snd y = h @ rounds (GetCloudAccount cid) sl (Suc n))))"
proof (intro conjI allI impI)
  show "waitVpcPeeringLoop svc sid vid e timeout sl vp (Some (Str ''failed'')) t h = Some (Inr vp, h)"
    by (subst waitVpcPeeringLoop.simps) simp
next
  fix y
  assume a: "e \<noteq> Str ''error'' \<and> t \<le> timeout"
    and "waitVpcPeeringLoop svc sid vid e timeout sl vp (Some (Str ''error'')) t h = Some y"
  then have "(\<lambda>(vp, st). waitVpcPeeringLoop svc sid vid e timeout sl vp st)
      (vp, Some (Str ''error'')) t h = Some y" by simp
  from goes_on[where loop = "\<lambda>(vp, st). waitVpcPeeringLoop svc sid vid e timeout sl vp st"
      and s = "(vp, Some (Str ''error''))", OF vpc_inducts this] a
  show "\<exists>n. snd y = h @ rounds (GetVpcPeerings sid) sl (Suc n)"
    by (auto simp add: statusPending_def)
next
  assume "sub_status subscription = Some (Str ''error'')"
  then show "waitSubscriptionLoop svc sid e timeout sl subscription t h = Some (Inr subscription, h)"
    by (subst waitSubscriptionLoop.simps) simp
next
  fix y
  assume a: "sub_status subscription = Some (Str ''failed'') \<and> e \<noteq> Str ''failed'' \<and> t \<le> timeout"
    and "waitSubscriptionLoop svc sid e timeout sl subscription t h = Some y"
  from goes_on[where loop = "waitSubscriptionLoop svc sid e timeout sl", OF sub_inducts this(2)] a
  show "\<exists>n. snd y = h @ rounds (GetSubscription sid) sl (Suc n)"
    by (auto simp add: statusPending_def)
next
  assume "db_status database = Some (Str ''error'')"
  then show "waitDatabaseLoop svc sid did e timeout sl database t h = Some (Inr database, h)"
    by (subst waitDatabaseLoop.simps) simp
next
  fix y
  assume a: "db_status database = Some (Str ''failed'') \<and> e \<noteq> Str ''failed'' \<and> t \<le> timeout"
    and "waitDatabaseLoop svc sid did e timeout sl database t h = Some y"
  from goes_on[where loop = "waitDatabaseLoop svc sid did e timeout sl", OF db_inducts this(2)] a
  show "\<exists>n. snd y = h @ rounds (GetDatabase sid did) sl (Suc n)"
    by (auto simp add: statusPending_def)
next
  assume "ca_status cloudAccount = Some (Str ''error'')"
  then show "waitCloudAccountLoop svc cid e timeout sl cloudAccount t h = Some (Inr cloudAccount, h)"
    by (subst waitCloudAccountLoop.simps) simp
next
  fix y
  assume a: "ca_status cloudAccount = Some (Str ''failed'') \<and> e \<noteq> Str ''failed'' \<and> t \<le> timeout"
    and "waitCloudAccountLoop svc cid e timeout sl cloudAccount t h = Some y"
  from goes_on[where loop = "waitCloudAccountLoop svc cid e timeout sl", OF ca_inducts this(2)] a
  show "\<exists>n. snd y = h @ rounds (GetCloudAccount cid) sl (Suc n)"
    by (auto simp add: statusPending_def)
qed

theorem sentinel_literals_witness:
  "waitVpcPeeringLoop (scriptedService [failing, active]) 1 1 (Str ''active'') 10 5
       (Some \<lparr> vpc_id = 1, vpc_status = failed \<rparr>) (Some (Str ''failed'')) 0 [GetVpcPeerings 1] =
     Some (Inr (Some \<lparr> vpc_id = 1, vpc_status = failed \<rparr>), [GetVpcPeerings 1])
   \<and> Str ''active'' \<noteq> Str ''error'' \<and> (0 :: int) \<le> 10
   \<and> waitVpcPeeringLoop (scriptedService [failing, active]) 1 1 (Str ''active'') 10 5
       (Some \<lparr> vpc_id = 1, vpc_status = failing \<rparr>) (Some (Str ''error'')) 0 [GetVpcPeerings 1] =
     Some (Inr (Some \<lparr> vpc_id = 1, vpc_status = Some (Str ''active'') \<rparr>),
           [GetVpcPeerings 1] @ rounds (GetVpcPeerings 1) 5 (Suc 0))
   \<and> sub_status \<lparr> sub_id = 1, sub_status = failing \<rparr> = Some (Str ''error'')
   \<and> waitSubscriptionLoop (scriptedService [failed, active]) 1 (Str ''active'') 10 5
       \<lparr> sub_id = 1, sub_status = failing \<rparr> 0 [GetSubscription 1] =
     Some (Inr \<lparr> sub_id = 1, sub_status = failing \<rparr>, [GetSubscription 1])
   \<and> sub_status \<lparr> sub_id = 1, sub_status = failed \<rparr> = Some (Str ''failed'')
   \<and> Str ''active'' \<noteq> Str ''failed''
   \<and> waitSubscriptionLoop (scriptedService [failed, active]) 1 (Str ''active'') 10 5
       \<lparr> sub_id = 1, sub_status = failed \<rparr> 0 [GetSubscription 1] =
     Some (Inr \<lparr> sub_id = 1, sub_status = Some (Str ''active'') \<rparr>,
           [GetSubscription 1] @ rounds (GetSubscription 1) 5 (Suc 0))
   \<and> waitDatabaseLoop (scriptedService [failed, active]) 1 1 (Str ''active'') 10 5
       \<lparr> db_databaseId = 1, db_status = failing \<rparr> 0 [GetDatabase 1 1] =
     Some (Inr \<lparr> db_databaseId = 1, db_status = failing \<rparr>, [GetDatabase 1 1])
   \<and> waitDatabaseLoop (scriptedService [failed, active]) 1 1 (Str ''active'') 10 5
       \<lparr> db_databaseId = 1, db_status = failed \<rparr> 0 [GetDatabase 1 1] =
     Some (Inr \<lparr> db_databaseId = 1, db_status = Some (Str ''active'') \<rparr>,
           [GetDatabase 1 1] @ rounds (GetDatabase 1 1) 5 (Suc 0))
   \<and> waitCloudAccountLoop (scriptedService [failed, active]) 1 (Str ''active'') 10 5
       \<lparr> ca_id = 1, ca_status = failing \<rparr> 0 [GetCloudAccount 1] =
     Some (Inr \<lparr> ca_id = 1, ca_status = failing \<rparr>, [GetCloudAccount 1])
   \<and> waitCloudAccountLoop (scriptedService [failed, active]) 1 (Str ''active'') 10 5
       \<lparr> ca_id = 1, ca_status = failed \<rparr> 0 [GetCloudAccount 1] =
     Some (Inr \<lparr> ca_id = 1, ca_status = Some (Str ''active'') \<rparr>,
           [GetCloudAccount 1] @ rounds (GetCloudAccount 1) 5 (Suc 0))"
proof -
  note vpc = sentinel_literals[where svc = "scriptedService [failing, active]" and sid = 1 and vid = 1
      and e = "Str ''active''" and timeout = 10 and sl = 5 and t = 0 and h = "[GetVpcPeerings 1]"]
  note sub = sentinel_literals[where svc = "scriptedService [failed, active]" and sid = 1
      and e = "Str ''active''" and timeout = 10 and sl = 5 and t = 0 and h = "[GetSubscription 1]"]
  note db = sentinel_literals[where svc = "scriptedService [failed, active]" and sid = 1 and did = 1
      and e = "Str ''active''" and timeout = 10 and sl = 5 and t = 0 and h = "[GetDatabase 1 1]"]
  note ca = sentinel_literals[where svc = "scriptedService [failed, active]" and cid = 1
      and e = "Str ''active''" and timeout = 10 and sl = 5 and t = 0 and h = "[GetCloudAccount 1]"]
  have v1: "waitVpcPeeringLoop (scriptedService [failing, active]) 1 1 (Str ''active'') 10 5
       (Some \<lparr> vpc_id = 1, vpc_status = failed \<rparr>) (Some (Str ''failed'')) 0 [GetVpcPeerings 1] =
     Some (Inr (Some \<lparr> vpc_id = 1, vpc_status = failed \<rparr>), [GetVpcPeerings 1])"
    using vpc[where vp = "Some \<lparr> vpc_id = 1, vpc_status = failed \<rparr>"] by simp
  have v2: "waitVpcPeeringLoop (scriptedService [failing, active]) 1 1 (Str ''active'') 10 5
       (Some \<lparr> vpc_id = 1, vpc_status = failing \<rparr>) (Some (Str ''error'')) 0 [GetVpcPeerings 1] =
     Some (Inr (Some \<lparr> vpc_id = 1, vpc_status = Some (Str ''active'') \<rparr>),
           [GetVpcPeerings 1] @ rounds (GetVpcPeerings 1) 5 (Suc 0))"
    by code_simp
  have s1: "waitSubscriptionLoop (scriptedService [failed, active]) 1 (Str ''active'') 10 5
       \<lparr> sub_id = 1, sub_status = failing \<rparr> 0 [GetSubscription 1] =
     Some (Inr \<lparr> sub_id = 1, sub_status = failing \<rparr>, [GetSubscription 1])"
    using sub[where subscription = "\<lparr> sub_id = 1, sub_status = failing \<rparr>"]
    by (simp add: failing_def)
  have s2: "waitSubscriptionLoop (scriptedService [failed, active]) 1 (Str ''active'') 10 5
       \<lparr> sub_id = 1, sub_status = failed \<rparr> 0 [GetSubscription 1] =
     Some (Inr \<lparr> sub_id = 1, sub_status = Some (Str ''active'') \<rparr>,
           [GetSubscription 1] @ rounds (GetSubscription 1) 5 (Suc 0))"
    by code_simp
  have d1: "waitDatabaseLoop (scriptedService [failed, active]) 1 1 (Str ''active'') 10 5
       \<lparr> db_databaseId = 1, db_status = failing \<rparr> 0 [GetDatabase 1 1] =
     Some (Inr \<lparr> db_databaseId = 1, db_status = failing \<rparr>, [GetDatabase 1 1])"
    using db[where database = "\<lparr> db_databaseId = 1, db_status = failing \<rparr>"]
    by (simp add: failing_def)
  have d2: "waitDatabaseLoop (scriptedService [failed, active]) 1 1 (Str ''active'') 10 5
       \<lparr> db_databaseId = 1, db_status = failed \<rparr> 0 [GetDatabase 1 1] =
     Some (Inr \<lparr> db_databaseId = 1, db_status = Some (Str ''active'') \<rparr>,
           [GetDatabase 1 1] @ rounds (GetDatabase 1 1) 5 (Suc 0))"
    by code_simp
  have c1: "waitCloudAccountLoop (scriptedService [failed, active]) 1 (Str ''active'') 10 5
       \<lparr> ca_id = 1, ca_status = failing \<rparr> 0 [GetCloudAccount 1] =
     Some (Inr \<lparr> ca_id = 1, ca_status = failing \<rparr>, [GetCloudAccount 1])"
    using ca[where cloudAccount = "\<lparr> ca_id = 1, ca_status = failing \<rparr>"]
    by (simp add: failing_def)
  have c2: "waitCloudAccountLoop (scriptedService [failed, active]) 1 (Str ''active'') 10 5
       \<lparr> ca_id = 1, ca_status = failed \<rparr> 0 [GetCloudAccount 1] =
     Some (Inr \<lparr> ca_id = 1, ca_status = Some (Str ''active'') \<rparr>,
           [GetCloudAccount 1] @ rounds (GetCloudAccount 1) 5 (Suc 0))"
    by code_simp
  from v1 v2 s1 s2 d1 d2 c1 c2 show ?thesis by (simp add: failing_def failed_def)
qed

text \<open>
  C7. With the database list \<open>[a, b]\<close>, whatever
  \<^verbatim>\<open>waitForSubscriptionDatabasesStatus\<close> returns, its log is: the call of
  \<^verbatim>\<open>getDatabases\<close>, then the whole log of the wait for \<open>a\<close> (which returned),
  then the whole log of the wait for \<open>b\<close>, started on the log the wait for \<open>a\<close>
  ended with; if the wait for \<open>a\<close> was rejected, nothing follows it. Each part
  holds only sleeps and fetches of its own database, so no fetch of \<open>b\<close> comes
  before the last fetch of \<open>a\<close>. If the wait for \<open>a\<close> never returns, neither
  does the helper.
\<close>

theorem databases_one_after_the_other:
  assumes "svc_getDatabases svc (tr @ [GetDatabases sid]) = Inr [a, b]"
  shows
   "(\<forall>y. waitForSubscriptionDatabasesStatus svc sid (Some e) (Some timeout) (Some sl) tr = Some y \<longrightarrow>
       (\<exists>n rA.
          waitForDatabaseStatus svc sid (db_databaseId a) e (Some timeout) (Some sl)
              (tr @ [GetDatabases sid]) =
            Some (rA, tr @ [GetDatabases sid] @ pollCalls (GetDatabase sid (db_databaseId a)) sl n)
          \<and> (case rA of
                Inl x \<Rightarrow>
                  y = (Inl x, tr @ [GetDatabases sid] @ pollCalls (GetDatabase sid (db_databaseId a)) sl n)
              | Inr r \<Rightarrow>
                  (\<exists>m rB.
                     waitForDatabaseStatus svc sid (db_databaseId b) e (Some timeout) (Some sl)
                         (tr @ [GetDatabases sid] @ pollCalls (GetDatabase sid (db_databaseId a)) sl n) =
                       Some (rB, tr @ [GetDatabases sid]
                                    @ pollCalls (GetDatabase sid (db_databaseId a)) sl n
                                    @ pollCalls (GetDatabase sid (db_databaseId b)) sl m)
                     \<and> snd y = tr @ [GetDatabases sid]
                                    @ pollCalls (GetDatabase sid (db_databaseId a)) sl n
                                    @ pollCalls (GetDatabase sid (db_databaseId b)) sl m))))
    \<and> (waitForDatabaseStatus svc sid (db_databaseId a) e (Some timeout) (Some sl)
            (tr @ [GetDatabases sid]) = None \<longrightarrow>
        waitForSubscriptionDatabasesStatus svc sid (Some e) (Some timeout) (Some sl) tr = None)
    \<and> set (pollCalls (GetDatabase sid (db_databaseId a)) sl n)
          \<subseteq> {GetDatabase sid (db_databaseId a), Sleep sl}
    \<and> set (pollCalls (GetDatabase sid (db_databaseId b)) sl m)
          \<subseteq> {GetDatabase sid (db_databaseId b), Sleep sl}"
proof (intro conjI allI impI)
  let ?t0 = "tr @ [GetDatabases sid]"
  let ?gA = "GetDatabase sid (db_databaseId a)"
  let ?gB = "GetDatabase sid (db_databaseId b)"
  let ?waitA = "waitForDatabaseStatus svc sid (db_databaseId a) e (Some timeout) (Some sl) ?t0"
  have whole: "waitForSubscriptionDatabasesStatus svc sid (Some e) (Some timeout) (Some sl) tr =
      waitForEachDatabase svc sid [a, b] e timeout sl ?t0"
    using assms by (simp add: waitForSubscriptionDatabasesStatus_def getDatabases_def)
  {
    assume "?waitA = None"
    then show "waitForSubscriptionDatabasesStatus svc sid (Some e) (Some timeout) (Some sl) tr = None"
      unfolding whole by simp
  }
  {
    fix y
    assume "waitForSubscriptionDatabasesStatus svc sid (Some e) (Some timeout) (Some sl) tr = Some y"
    then have y: "waitForEachDatabase svc sid [a, b] e timeout sl ?t0 = Some y"
      unfolding whole .
    then obtain rA tA where A: "?waitA = Some (rA, tA)"
      by (cases ?waitA) auto
    from first_returns[where loop = "waitDatabaseLoop svc sid (db_databaseId a) e timeout sl",
        OF db_inducts db_weq A]
    obtain n where n: "tA = ?t0 @ pollCalls ?gA sl n" by auto
    have "case rA of
            Inl x \<Rightarrow> y = (Inl x, tA)
          | Inr r \<Rightarrow>
              (\<exists>m rB. waitForDatabaseStatus svc sid (db_databaseId b) e (Some timeout) (Some sl) tA =
                         Some (rB, tA @ pollCalls ?gB sl m)
                     \<and> snd y = tA @ pollCalls ?gB sl m)"
    proof (cases rA)
      case (Inl x)
      with y A show ?thesis by simp
    next
      case (Inr r)
      let ?waitB = "waitForDatabaseStatus svc sid (db_databaseId b) e (Some timeout) (Some sl) tA"
      from y A Inr obtain rB tB where B: "?waitB = Some (rB, tB)"
        by (cases ?waitB) auto
      from first_returns[where loop = "waitDatabaseLoop svc sid (db_databaseId b) e timeout sl",
          OF db_inducts db_weq B]
      obtain m where m: "tB = tA @ pollCalls ?gB sl m" by auto
      from y A Inr B have "snd y = tB" by (cases rB) auto
      with B m Inr show ?thesis by auto
    qed
    with A n
    show "\<exists>n rA. ?waitA = Some (rA, tr @ [GetDatabases sid] @ pollCalls ?gA sl n)
          \<and> (case rA of
                Inl x \<Rightarrow> y = (Inl x, tr @ [GetDatabases sid] @ pollCalls ?gA sl n)
              | Inr r \<Rightarrow>
                  (\<exists>m rB.
                     waitForDatabaseStatus svc sid (db_databaseId b) e (Some timeout) (Some sl)
                         (tr @ [GetDatabases sid] @ pollCalls ?gA sl n) =
                       Some (rB, tr @ [GetDatabases sid] @ pollCalls ?gA sl n @ pollCalls ?gB sl m)
                     \<and> snd y = tr @ [GetDatabases sid] @ pollCalls ?gA sl n @ pollCalls ?gB sl m))"
      by (intro exI[of _ n] exI[of _ rA]) (simp split: sum.splits)
  }
  show "set (pollCalls ?gA sl n) \<subseteq> {?gA, Sleep sl}" by (rule set_pollCalls)
  show "set (pollCalls ?gB sl m) \<subseteq> {?gB, Sleep sl}" by (rule set_pollCalls)
qed

theorem databases_one_after_the_other_witness:
  "svc_getDatabases twoDatabasesService ([] @ [GetDatabases 1]) =
     Inr [\<lparr> db_databaseId = 10, db_status = creating \<rparr>, \<lparr> db_databaseId = 20, db_status = creating \<rparr>]
   \<and> waitForSubscriptionDatabasesStatus twoDatabasesService 1 (Some (Str ''active'')) (Some 10) (Some 5) [] =
     Some (Inr (), [GetDatabases 1, GetDatabase 1 10, Sleep 5, GetDatabase 1 10,
                    GetDatabase 1 20, Sleep 5, GetDatabase 1 20])
   \<and> waitForDatabaseStatus twoDatabasesService 1 10 (Str ''active'') (Some 10) (Some 5) [GetDatabases 1] =
     Some (Inr \<lparr> db_databaseId = 10, db_status = active \<rparr>,
           [GetDatabases 1] @ pollCalls (GetDatabase 1 10) 5 1)
   \<and> waitForDatabaseStatus twoDatabasesService 1 20 (Str ''active'') (Some 10) (Some 5)
       ([GetDatabases 1] @ pollCalls (GetDatabase 1 10) 5 1) =
     Some (Inr \<lparr> db_databaseId = 20, db_status = active \<rparr>,
           [GetDatabases 1] @ pollCalls (GetDatabase 1 10) 5 1 @ pollCalls (GetDatabase 1 20) 5 1)
   \<and> [GetDatabases 1] @ pollCalls (GetDatabase 1 10) 5 1 @ pollCalls (GetDatabase 1 20) 5 1 =
       [GetDatabases 1, GetDatabase 1 10, Sleep 5, GetDatabase 1 10,
        GetDatabase 1 20, Sleep 5, GetDatabase 1 20]
   \<and> waitForDatabaseStatus twoDatabasesService 1 10 (Str ''active'') (Some 10) (Some 5) [GetDatabases 1] \<noteq> None
   \<and> set (pollCalls (GetDatabase 1 10) 5 1) \<subseteq> {GetDatabase 1 10, Sleep 5}
   \<and> set (pollCalls (GetDatabase 1 20) 5 1) \<subseteq> {GetDatabase 1 20, Sleep 5}"
proof -
  have hyp: "svc_getDatabases twoDatabasesService ([] @ [GetDatabases 1]) =
     Inr [\<lparr> db_databaseId = 10, db_status = creating \<rparr>, \<lparr> db_databaseId = 20, db_status = creating \<rparr>]"
    by (simp add: twoDatabasesService_def)
  have whole: "waitForSubscriptionDatabasesStatus twoDatabasesService 1 (Some (Str ''active'')) (Some 10) (Some 5) [] =
     Some (Inr (), [GetDatabases 1, GetDatabase 1 10, Sleep 5, GetDatabase 1 10,
                    GetDatabase 1 20, Sleep 5, GetDatabase 1 20])"
    by code_simp
  have A: "waitForDatabaseStatus twoDatabasesService 1 10 (Str ''active'') (Some 10) (Some 5) [GetDatabases 1] =
     Some (Inr \<lparr> db_databaseId = 10, db_status = active \<rparr>,
           [GetDatabases 1] @ pollCalls (GetDatabase 1 10) 5 1)"
    by code_simp
  have B: "waitForDatabaseStatus twoDatabasesService 1 20 (Str ''active'') (Some 10) (Some 5)
       ([GetDatabases 1] @ pollCalls (GetDatabase 1 10) 5 1) =
     Some (Inr \<lparr> db_databaseId = 20, db_status = active \<rparr>,
           [GetDatabases 1] @ pollCalls (GetDatabase 1 10) 5 1 @ pollCalls (GetDatabase 1 20) 5 1)"
    by code_simp
  have l: "[GetDatabases 1] @ pollCalls (GetDatabase 1 10) 5 1 @ pollCalls (GetDatabase 1 20) 5 1 =
       [GetDatabases 1, GetDatabase 1 10, Sleep 5, GetDatabase 1 10,
        GetDatabase 1 20, Sleep 5, GetDatabase 1 20]"
    by (simp add: pollCalls_def rounds_def)
  from databases_one_after_the_other[OF hyp, of "Str ''active''" 10 5 1 1] hyp whole A B l
  show ?thesis by simp
qed

end
